theory Spec2Isabelle
  imports Main "HOL-Library.Word" "HOL-Library.Sublist"
begin

unbundle bit_operations_syntax

section \<open>OpenTelemetry process context: codec and publisher\<close>

text \<open>
  A shallow embedding of \<^verbatim>\<open>process-context/c-and-cpp/otel_process_ctx.c\<close> (the
  Linux build, with the self-reader compiled in).

  Conventions of the model.
  \<^item> A C \<^verbatim>\<open>char\<close> is a \<^typ>\<open>char\<close> (eight bits); \<^term>\<open>of_char\<close> reads it as
    \<^verbatim>\<open>unsigned char\<close> and \<^term>\<open>char_of\<close> is the cast \<^verbatim>\<open>(char)\<close>, which keeps the
    low eight bits.
  \<^item> A C string is the list of its bytes before the terminating NUL; a
    \<^verbatim>\<open>const char *\<close> that may be \<^verbatim>\<open>NULL\<close> is an \<open>option\<close>.
  \<^item> \<^verbatim>\<open>size_t\<close> quantities are natural numbers (they are sums of lengths of
    strings held in memory); a conversion to \<^verbatim>\<open>uint16_t\<close> or \<^verbatim>\<open>uint32_t\<close> is written
    out where the source performs one.
\<close>

subsection \<open>Constants and data\<close>

type_synonym byte = char
type_synonym cstring = "char list"

definition NUL :: char where
  "NUL = CHR 0x00"

definition KEY_VALUE_LIMIT :: nat where
  "KEY_VALUE_LIMIT = 4096"

definition UINT14_MAX :: nat where
  "UINT14_MAX = 16383"

definition uint16_t :: "nat \<Rightarrow> nat" where
  "uint16_t n = n mod 65536"

text \<open>
  \<^verbatim>\<open>otel_process_ctx_data\<close> (declared in the header): seven string pointers and a
  NULL-terminated array of string pointers, alternating keys and values. The array is
  represented by its entries before the terminator, \<open>None\<close> being a \<^verbatim>\<open>NULL\<close> array
  pointer.
\<close>

record otel_process_ctx_data =
  deployment_environment_name :: "cstring option"
  service_instance_id :: "cstring option"
  service_name :: "cstring option"
  service_version :: "cstring option"
  telemetry_sdk_language :: "cstring option"
  telemetry_sdk_version :: "cstring option"
  telemetry_sdk_name :: "cstring option"
  resources :: "cstring list option"

definition empty_data :: otel_process_ctx_data where
  "empty_data = \<lparr>deployment_environment_name = None, service_instance_id = None,
     service_name = None, service_version = None, telemetry_sdk_language = None,
     telemetry_sdk_version = None, telemetry_sdk_name = None, resources = None\<rparr>"

text \<open>
  Error messages. The source appends \<^verbatim>\<open>__FILE__ ":" __LINE__ ")"\<close> to the literal text;
  the file's own name stands for \<^verbatim>\<open>__FILE__\<close>.
\<close>

definition src_loc :: "string \<Rightarrow> string" where
  "src_loc line = ''otel_process_ctx.c:'' @ line @ '')''"

definition err_value_null :: string where
  "err_value_null = ''Value in otel_process_ctx_data is NULL ('' @ src_loc ''303''"

definition err_key_too_long :: string where
  "err_key_too_long =
     ''Length of key in otel_process_ctx_data exceeds 4096 limit ('' @ src_loc ''312''"

definition err_value_too_long :: string where
  "err_value_too_long =
     ''Length of value in otel_process_ctx_data exceeds 4096 limit ('' @ src_loc ''315''"

definition err_payload_alloc :: string where
  "err_payload_alloc = ''Failed to allocate memory for payload ('' @ src_loc ''394''"

subsection \<open>Sizes of the encoded records\<close>

definition protobuf_varint_size :: "nat \<Rightarrow> nat" where
  "protobuf_varint_size val = (if val \<ge> 128 then 2 else 1)"

text \<open>The argument of \<^verbatim>\<open>protobuf_varint_size\<close> is a \<^verbatim>\<open>uint16_t\<close>: the length is converted.\<close>

definition protobuf_record_size :: "nat \<Rightarrow> nat" where
  "protobuf_record_size len = 1 + protobuf_varint_size (uint16_t len) + len"

definition protobuf_string_size :: "cstring \<Rightarrow> nat" where
  "protobuf_string_size str = protobuf_record_size (length str)"

definition protobuf_otel_keyvalue_string_size :: "cstring \<Rightarrow> cstring \<Rightarrow> nat" where
  "protobuf_otel_keyvalue_string_size key val =
     (let key_field_size = protobuf_string_size key;
          value_field_size = protobuf_record_size (protobuf_string_size val)
      in key_field_size + value_field_size)"

subsection \<open>Validation and the size pre-pass\<close>

text \<open>
  A \<^verbatim>\<open>const char **pairs\<close> array is the list of its cells, \<open>None\<close> being a \<^verbatim>\<open>NULL\<close>
  cell. The second loop of \<^verbatim>\<open>validate_and_calculate_protobuf_payload_size\<close> reads
  cells \<open>2 * i\<close> and \<open>2 * i + 1\<close> until cell \<open>2 * i\<close> is \<^verbatim>\<open>NULL\<close>; it runs only on
  arrays with an even number of cells before the first \<^verbatim>\<open>NULL\<close>, so the value cell it
  reads is never \<^verbatim>\<open>NULL\<close>.
\<close>

fun validate_loop :: "cstring option list \<Rightarrow> nat \<Rightarrow> string + nat" where
  "validate_loop (Some key # Some val # rest) out_pairs_size =
     (if length key > KEY_VALUE_LIMIT then Inl err_key_too_long
      else if length val > KEY_VALUE_LIMIT then Inl err_value_too_long
      else validate_loop rest
             (out_pairs_size +
              protobuf_record_size (protobuf_otel_keyvalue_string_size key val)))"
| "validate_loop _ out_pairs_size = Inr out_pairs_size"

definition validate_and_calculate_protobuf_payload_size ::
    "cstring option list \<Rightarrow> string + nat" where
  "validate_and_calculate_protobuf_payload_size pairs =
     (let num_entries = length (takeWhile (\<lambda>p. p \<noteq> None) pairs)
      in if num_entries mod 2 \<noteq> 0 then Inl err_value_null
         else validate_loop pairs 0)"

subsection \<open>Writing into the allocated buffer\<close>

text \<open>
  The write cursor \<^verbatim>\<open>char **ptr\<close> is a buffer together with an offset into it. A store
  outside the buffer is undefined behaviour in C; here it is the result \<open>None\<close>.
\<close>

type_synonym wbuf = "byte list \<times> nat"

definition put_char :: "byte \<Rightarrow> wbuf \<Rightarrow> wbuf option" where
  "put_char c w =
     (case w of (buf, p) \<Rightarrow> if p < length buf then Some (buf[p := c], p + 1) else None)"

definition memcpy_advance :: "byte list \<Rightarrow> wbuf \<Rightarrow> wbuf option" where
  "memcpy_advance src w =
     (case w of (buf, p) \<Rightarrow>
        if p + length src \<le> length buf
        then Some (take p buf @ src @ drop (p + length src) buf, p + length src)
        else None)"

definition write_protobuf_varint :: "nat \<Rightarrow> wbuf \<Rightarrow> wbuf option" where
  "write_protobuf_varint val w =
     (if protobuf_varint_size val = 1 then put_char (char_of val) w
      else Option.bind (put_char (char_of ((val AND 0x7F) OR 0x80)) w)
             (put_char (char_of (drop_bit 7 val))))"

definition write_protobuf_string :: "cstring \<Rightarrow> wbuf \<Rightarrow> wbuf option" where
  "write_protobuf_string str w =
     (let len = length str
      in Option.bind (write_protobuf_varint (uint16_t len) w) (memcpy_advance str))"

definition write_protobuf_tag :: "nat \<Rightarrow> wbuf \<Rightarrow> wbuf option" where
  "write_protobuf_tag field_number w = put_char (char_of (push_bit 3 field_number OR 2)) w"

definition write_attribute :: "cstring \<Rightarrow> cstring \<Rightarrow> wbuf \<Rightarrow> wbuf option" where
  "write_attribute key val w =
     Option.bind (write_protobuf_tag 1 w) (\<lambda>w.
     Option.bind (write_protobuf_varint
                    (uint16_t (protobuf_otel_keyvalue_string_size key val)) w) (\<lambda>w.
     Option.bind (write_protobuf_tag 1 w) (\<lambda>w.
     Option.bind (write_protobuf_string key w) (\<lambda>w.
     Option.bind (write_protobuf_tag 2 w) (\<lambda>w.
     Option.bind (write_protobuf_varint (uint16_t (protobuf_string_size val)) w) (\<lambda>w.
     Option.bind (write_protobuf_tag 1 w) (\<lambda>w.
     write_protobuf_string val w)))))))"

fun write_pairs :: "cstring option list \<Rightarrow> wbuf \<Rightarrow> wbuf option" where
  "write_pairs (Some key # Some val # rest) w =
     Option.bind (write_attribute key val w) (write_pairs rest)"
| "write_pairs _ w = Some w"

subsection \<open>The encoder\<close>

definition identity_pairs :: "otel_process_ctx_data \<Rightarrow> cstring option list" where
  "identity_pairs data =
     [Some ''deployment.environment.name'', deployment_environment_name data,
      Some ''service.instance.id'', service_instance_id data,
      Some ''service.name'', service_name data,
      Some ''service.version'', service_version data,
      Some ''telemetry.sdk.language'', telemetry_sdk_language data,
      Some ''telemetry.sdk.version'', telemetry_sdk_version data,
      Some ''telemetry.sdk.name'', telemetry_sdk_name data,
      None]"

definition resources_array :: "cstring list \<Rightarrow> cstring option list" where
  "resources_array rs = map Some rs @ [None]"

text \<open>The size pre-pass: both validations and the sum of the two sizes.\<close>

definition encode_total_size :: "otel_process_ctx_data \<Rightarrow> string + nat" where
  "encode_total_size data =
     (case validate_and_calculate_protobuf_payload_size (identity_pairs data) of
        Inl e \<Rightarrow> Inl e
      | Inr pairs_size \<Rightarrow>
          (case (case resources data of
                   None \<Rightarrow> Inr 0
                 | Some rs \<Rightarrow> validate_and_calculate_protobuf_payload_size (resources_array rs))
           of Inl e \<Rightarrow> Inl e
            | Inr resources_pairs_size \<Rightarrow> Inr (pairs_size + resources_pairs_size)))"

text \<open>The emit pass: the two loops that call \<^verbatim>\<open>write_attribute\<close>, on the cursor.\<close>

definition encode_emit :: "otel_process_ctx_data \<Rightarrow> wbuf \<Rightarrow> wbuf option" where
  "encode_emit data w =
     Option.bind (write_pairs (identity_pairs data) w) (\<lambda>w.
       case resources data of
         None \<Rightarrow> Some w
       | Some rs \<Rightarrow> write_pairs (resources_array rs) w)"

text \<open>
  \<^verbatim>\<open>otel_process_ctx_encode_protobuf_payload\<close>. The flag says whether \<^verbatim>\<open>calloc\<close>
  returns a buffer. The result is \<open>None\<close> when a store leaves the buffer, otherwise the
  failure message or the buffer with \<^verbatim>\<open>*out_size\<close>, the total converted to \<^verbatim>\<open>uint32_t\<close>.
\<close>

definition otel_process_ctx_encode_protobuf_payload ::
    "bool \<Rightarrow> otel_process_ctx_data \<Rightarrow> (string + byte list \<times> 32 word) option" where
  "otel_process_ctx_encode_protobuf_payload calloc_ok data =
     (case encode_total_size data of
        Inl e \<Rightarrow> Some (Inl e)
      | Inr total_size \<Rightarrow>
          if \<not> calloc_ok then Some (Inl err_payload_alloc)
          else (case encode_emit data (replicate total_size NUL, 0) of
                  None \<Rightarrow> None
                | Some (encoded, ptr) \<Rightarrow> Some (Inr (encoded, of_nat total_size))))"

subsection \<open>Reading primitives of the self-reader\<close>

text \<open>
  The read cursor is the list of the bytes from \<^verbatim>\<open>*ptr\<close> up to (not including)
  \<^verbatim>\<open>end_ptr\<close>. A reader returns the value read and the advanced cursor, or \<open>None\<close>
  where the source returns \<^verbatim>\<open>false\<close>.
\<close>

definition read_protobuf_varint :: "byte list \<Rightarrow> (nat \<times> byte list) option" where
  "read_protobuf_varint bs =
     (case bs of
        [] \<Rightarrow> None
      | b1 # bs1 \<Rightarrow>
          (let first_byte = (of_char b1 :: nat)
           in if first_byte < 128 then Some (first_byte, bs1)
              else (case bs1 of
                      [] \<Rightarrow> None
                    | b2 # bs2 \<Rightarrow>
                        (let second_byte = (of_char b2 :: nat);
                             val = uint16_t ((first_byte AND 0x7F) OR push_bit 7 second_byte)
                         in if val \<le> UINT14_MAX then Some (val, bs2) else None))))"

text \<open>
  \<^verbatim>\<open>read_protobuf_string\<close> copies \<open>len\<close> bytes into the buffer and terminates them
  with NUL; the result is the part of the buffer before that terminator.
\<close>

definition read_protobuf_string :: "byte list \<Rightarrow> (byte list \<times> byte list) option" where
  "read_protobuf_string bs =
     (case read_protobuf_varint bs of
        None \<Rightarrow> None
      | Some (len, bs1) \<Rightarrow>
          if len \<ge> KEY_VALUE_LIMIT + 1 \<or> len > length bs1 then None
          else Some (take len bs1, drop len bs1))"

definition read_protobuf_tag :: "byte list \<Rightarrow> (nat \<times> byte list) option" where
  "read_protobuf_tag bs =
     (case bs of
        [] \<Rightarrow> None
      | t # bs1 \<Rightarrow>
          (let tag = (of_char t :: nat);
               wire_type = tag AND 0x07;
               field_number = drop_bit 3 tag
           in if wire_type = 2 then Some (field_number, bs1) else None))"

text \<open>
  A buffer read as a C string ends at its first NUL: this is what \<^verbatim>\<open>strdup\<close> copies
  and what \<^verbatim>\<open>strcmp\<close> compares.
\<close>

definition c_str :: "byte list \<Rightarrow> cstring" where
  "c_str buffer = takeWhile (\<lambda>c. c \<noteq> NUL) buffer"

text \<open>
  Heap allocation in the reader: the list holds the outcomes of the coming allocation
  requests, in order; once it is used up every request succeeds.
\<close>

fun next_alloc :: "bool list \<Rightarrow> bool \<times> bool list" where
  "next_alloc [] = (True, [])"
| "next_alloc (ok # allocs) = (ok, allocs)"

definition strdup :: "bool list \<Rightarrow> byte list \<Rightarrow> cstring option \<times> bool list" where
  "strdup allocs buffer =
     (case next_alloc allocs of (ok, allocs') \<Rightarrow>
        (if ok then Some (c_str buffer) else None, allocs'))"

subsection \<open>The decoder\<close>

text \<open>The flags and the two caller-provided buffers of the KeyValue loop.\<close>

record kv_state =
  key_found :: bool
  value_found :: bool
  key_buffer :: "byte list"
  value_buffer :: "byte list"

lemma read_protobuf_varint_shorter:
  "read_protobuf_varint bs = Some (v, bs') \<Longrightarrow> length bs' < length bs"
  by (auto simp: read_protobuf_varint_def Let_def split: list.splits if_splits)

lemma read_protobuf_string_shorter:
  "read_protobuf_string bs = Some (s, bs') \<Longrightarrow> length bs' < length bs"
  by (auto simp: read_protobuf_string_def split: option.splits if_splits
      dest!: read_protobuf_varint_shorter)

lemma read_protobuf_tag_shorter:
  "read_protobuf_tag bs = Some (f, bs') \<Longrightarrow> length bs' < length bs"
  by (auto simp: read_protobuf_tag_def Let_def split: list.splits if_splits)

text \<open>
  The inner loop \<^verbatim>\<open>while (ptr < kv_end)\<close>; the cursor holds the bytes up to
  \<^verbatim>\<open>kv_end\<close>. A field number other than 1 or 2 consumes the tag only, and so does an
  AnyValue field other than 1.
\<close>

function parse_keyvalue :: "byte list \<Rightarrow> kv_state \<Rightarrow> kv_state option" where
  "parse_keyvalue bs st =
     (if bs = [] then Some st
      else case read_protobuf_tag bs of
        None \<Rightarrow> None
      | Some (kv_field, bs1) \<Rightarrow>
          if kv_field = 1 then
            (case read_protobuf_string bs1 of
               None \<Rightarrow> None
             | Some (key, bs2) \<Rightarrow>
                 parse_keyvalue bs2 (st\<lparr>key_buffer := key, key_found := True\<rparr>))
          else if kv_field = 2 then
            (case read_protobuf_varint bs1 of
               None \<Rightarrow> None
             | Some (any_len, bs2) \<Rightarrow>
                 (case read_protobuf_tag bs2 of
                    None \<Rightarrow> None
                  | Some (any_field, bs3) \<Rightarrow>
                      if any_field = 1 then
                        (case read_protobuf_string bs3 of
                           None \<Rightarrow> None
                         | Some (val, bs4) \<Rightarrow>
                             parse_keyvalue bs4
                               (st\<lparr>value_buffer := val, value_found := True\<rparr>))
                      else parse_keyvalue bs3 st))
          else parse_keyvalue bs1 st)"
  by pat_completeness auto
termination
proof (relation "measure (\<lambda>(bs, st). length bs)")
  show "wf (measure (\<lambda>(bs, st). length bs))" by simp
qed (auto dest!: read_protobuf_tag_shorter read_protobuf_string_shorter
       read_protobuf_varint_shorter)

declare parse_keyvalue.simps [simp del]

text \<open>
  The outer loop \<^verbatim>\<open>while (ptr < end_ptr)\<close>. \<open>rs\<close> is the filled part of the
  \<^verbatim>\<open>resources\<close> array, so that \<^verbatim>\<open>resource_index\<close> is its length; the array has
  \<^verbatim>\<open>resource_capacity = 201\<close> cells.
\<close>

definition resource_capacity :: nat where
  "resource_capacity = 201"

function decode_loop ::
    "byte list \<Rightarrow> bool list \<Rightarrow> byte list \<times> byte list \<Rightarrow> otel_process_ctx_data \<Rightarrow>
     cstring list \<Rightarrow> (otel_process_ctx_data \<times> cstring list) option" where
  "decode_loop bs allocs buffers data_out rs =
     (if bs = [] then Some (data_out, rs)
      else case read_protobuf_tag bs of
        None \<Rightarrow> None
      | Some (field_number, bs1) \<Rightarrow>
          if field_number \<noteq> 1 then None
          else (case read_protobuf_varint bs1 of
            None \<Rightarrow> None
          | Some (kv_len, bs2) \<Rightarrow>
              if kv_len > length bs2 then None
              else (case parse_keyvalue (take kv_len bs2)
                           \<lparr>key_found = False, value_found = False,
                            key_buffer = fst buffers, value_buffer = snd buffers\<rparr> of
                None \<Rightarrow> None
              | Some st \<Rightarrow>
                  if \<not> key_found st \<or> \<not> value_found st then None
                  else (case strdup allocs (value_buffer st) of
                    (None, allocs1) \<Rightarrow> None
                  | (Some val, allocs1) \<Rightarrow>
                      (let rest = drop kv_len bs2;
                           buffers' = (key_buffer st, value_buffer st);
                           key = c_str (key_buffer st)
                       in if key = ''deployment.environment.name'' then
                            decode_loop rest allocs1 buffers'
                              (data_out\<lparr>deployment_environment_name := Some val\<rparr>) rs
                          else if key = ''service.instance.id'' then
                            decode_loop rest allocs1 buffers'
                              (data_out\<lparr>service_instance_id := Some val\<rparr>) rs
                          else if key = ''service.name'' then
                            decode_loop rest allocs1 buffers'
                              (data_out\<lparr>service_name := Some val\<rparr>) rs
                          else if key = ''service.version'' then
                            decode_loop rest allocs1 buffers'
                              (data_out\<lparr>service_version := Some val\<rparr>) rs
                          else if key = ''telemetry.sdk.language'' then
                            decode_loop rest allocs1 buffers'
                              (data_out\<lparr>telemetry_sdk_language := Some val\<rparr>) rs
                          else if key = ''telemetry.sdk.version'' then
                            decode_loop rest allocs1 buffers'
                              (data_out\<lparr>telemetry_sdk_version := Some val\<rparr>) rs
                          else if key = ''telemetry.sdk.name'' then
                            decode_loop rest allocs1 buffers'
                              (data_out\<lparr>telemetry_sdk_name := Some val\<rparr>) rs
                          else (case strdup allocs1 (key_buffer st) of
                            (key_copy, allocs2) \<Rightarrow>
                              if key_copy = None \<or> length rs + 2 \<ge> resource_capacity
                              then None
                              else decode_loop rest allocs2 buffers' data_out
                                     (rs @ [the key_copy, val])))))))"
  by pat_completeness auto
termination
proof (relation "measure (\<lambda>(bs, allocs, buffers, data_out, rs). length bs)")
  show "wf (measure (\<lambda>(bs, allocs, buffers, data_out, rs). length bs))" by simp
qed (auto dest!: read_protobuf_tag_shorter read_protobuf_varint_shorter)

declare decode_loop.simps [simp del]

text \<open>
  \<^verbatim>\<open>otel_process_ctx_decode_payload\<close>: \<open>None\<close> is the result \<^verbatim>\<open>false\<close>. The cursor
  runs over the first \<^verbatim>\<open>payload_size\<close> bytes at \<^verbatim>\<open>payload\<close>. The first allocation is
  the \<^verbatim>\<open>calloc\<close> of the resources array.
\<close>

definition otel_process_ctx_decode_payload ::
    "bool list \<Rightarrow> byte list \<Rightarrow> 32 word \<Rightarrow> byte list \<Rightarrow> byte list \<Rightarrow>
     otel_process_ctx_data option" where
  "otel_process_ctx_decode_payload allocs payload payload_size key_buf value_buf =
     (case next_alloc allocs of (ok, allocs1) \<Rightarrow>
        if \<not> ok then None
        else (case decode_loop (take (unat payload_size) payload) allocs1
                     (key_buf, value_buf) empty_data [] of
          None \<Rightarrow> None
        | Some (data_out, rs) \<Rightarrow>
            if deployment_environment_name data_out \<noteq> None \<and>
               service_instance_id data_out \<noteq> None \<and>
               service_name data_out \<noteq> None \<and>
               service_version data_out \<noteq> None \<and>
               telemetry_sdk_language data_out \<noteq> None \<and>
               telemetry_sdk_version data_out \<noteq> None \<and>
               telemetry_sdk_name data_out \<noteq> None
            then Some (data_out\<lparr>resources := Some rs\<rparr>)
            else None))"

section \<open>The publisher\<close>

subsection \<open>Process state and environment\<close>

text \<open>
  Pointers are addresses. The header lives in a mapped region and the payload in a heap
  block; the maps below hold the mapped header regions and the live heap blocks of the
  process. \<^verbatim>\<open>MAP_FAILED\<close> is \<^verbatim>\<open>(void *) -1\<close>.
\<close>

type_synonym addr = nat

definition NULL :: addr where
  "NULL = 0"

definition MAP_FAILED :: addr where
  "MAP_FAILED = 2 ^ 64 - 1"

record otel_process_ctx_mapping =
  otel_process_ctx_signature :: "byte list"
  otel_process_ctx_version :: "32 word"
  otel_process_payload_size :: "32 word"
  otel_process_ctx_published_at_ns :: "64 word"
  otel_process_payload :: addr

record otel_process_ctx_state =
  publisher_pid :: int
  mapping :: addr
  payload :: addr

record process =
  published_state :: otel_process_ctx_state
  mappings :: "addr \<rightharpoonup> otel_process_ctx_mapping"
  heap :: "addr \<rightharpoonup> byte list"
  pid :: int

text \<open>
  The outcomes of the system and library calls made during one operation: what
  \<^verbatim>\<open>clock_gettime\<close> stores (\<open>None\<close> when it returns -1), the pointer that \<^verbatim>\<open>calloc\<close>
  returns, and the results of \<^verbatim>\<open>memfd_create\<close>, \<^verbatim>\<open>ftruncate\<close>, \<^verbatim>\<open>mmap\<close>,
  \<^verbatim>\<open>close\<close>, \<^verbatim>\<open>madvise\<close>, \<^verbatim>\<open>munmap\<close> and \<^verbatim>\<open>prctl\<close>. Each is called at most once
  on any path through an operation.
\<close>

record timespec =
  tv_sec :: int
  tv_nsec :: int

record environment =
  clock_gettime :: "timespec option"
  calloc_ptr :: addr
  memfd_create_fd :: int
  ftruncate_ret :: int
  mmap_ptr :: addr
  close_ret :: int
  madvise_ret :: int
  munmap_ret :: int
  prctl_ret :: int

record otel_process_ctx_result =
  success :: bool
  error_message :: "string option"

definition failure :: "string \<Rightarrow> otel_process_ctx_result" where
  "failure msg = \<lparr>success = False, error_message = Some msg\<rparr>"

definition succeeded :: otel_process_ctx_result where
  "succeeded = \<lparr>success = True, error_message = None\<rparr>"

definition err_data_null :: string where
  "err_data_null = ''otel_process_ctx_data is NULL ('' @ src_loc ''121''"

definition err_time :: string where
  "err_time = ''Failed to get current time ('' @ src_loc ''125''"

definition err_drop_previous :: string where
  "err_drop_previous = ''Failed to drop previous context ('' @ src_loc ''134''"

definition err_truncate :: string where
  "err_truncate = ''Failed to truncate memfd ('' @ src_loc ''152''"

definition err_close :: string where
  "err_close = ''Failed to close memfd ('' @ src_loc ''164''"

definition err_mapping :: string where
  "err_mapping = ''Failed to allocate mapping ('' @ src_loc ''166''"

definition err_madvise :: string where
  "err_madvise = ''Failed to setup MADV_DONTFORK ('' @ src_loc ''174''"

definition err_drop :: string where
  "err_drop = ''Failed to drop context ('' @ src_loc ''176''"

definition err_not_published :: string where
  "err_not_published =
     ''Unexpected: otel_process_ctx_data is NULL or context is not published ('' @
     src_loc ''242''"

definition OTEL_CTX_SIGNATURE :: "byte list" where
  "OTEL_CTX_SIGNATURE = ''OTEL_CTX''"

definition initial_state :: otel_process_ctx_state where
  "initial_state = \<lparr>publisher_pid = 0, mapping = NULL, payload = NULL\<rparr>"

subsection \<open>Helpers of the publisher\<close>

definition time_now_ns :: "environment \<Rightarrow> 64 word" where
  "time_now_ns env =
     (case clock_gettime env of
        None \<Rightarrow> 0
      | Some ts \<Rightarrow> word_of_int (tv_sec ts) * 1000000000 + word_of_int (tv_nsec ts))"

definition ctx_is_published :: "process \<Rightarrow> otel_process_ctx_state \<Rightarrow> bool" where
  "ctx_is_published p state \<longleftrightarrow>
     mapping state \<noteq> NULL \<and> mapping state \<noteq> MAP_FAILED \<and> pid p = publisher_pid state"

text \<open>\<^verbatim>\<open>free\<close>: nothing for \<^verbatim>\<open>NULL\<close>, otherwise the block is no longer live.\<close>

definition free :: "addr \<Rightarrow> process \<Rightarrow> process" where
  "free a p = (if a = NULL then p else p\<lparr>heap := (heap p)(a := None)\<rparr>)"

text \<open>
  A store through \<^verbatim>\<open>published_state.mapping\<close>. The result is \<open>None\<close> when the
  pointer is not the address of a mapped header (a memory fault).
\<close>

definition store_mapping ::
    "(otel_process_ctx_mapping \<Rightarrow> otel_process_ctx_mapping) \<Rightarrow> process \<Rightarrow> process option" where
  "store_mapping f p =
     (let a = mapping (published_state p)
      in case mappings p a of
           None \<Rightarrow> None
         | Some m \<Rightarrow> Some (p\<lparr>mappings := (mappings p)(a \<mapsto> f m)\<rparr>))"

text \<open>
  The encoder run inside the process: on success the buffer that \<^verbatim>\<open>calloc\<close> returned
  is a live block holding the encoded bytes, and \<^verbatim>\<open>*out\<close> is its address.
\<close>

definition encode_payload ::
    "environment \<Rightarrow> otel_process_ctx_data \<Rightarrow> process \<Rightarrow>
     ((string + addr \<times> 32 word) \<times> process) option" where
  "encode_payload env data p =
     (case otel_process_ctx_encode_protobuf_payload (calloc_ptr env \<noteq> NULL) data of
        None \<Rightarrow> None
      | Some (Inl e) \<Rightarrow> Some (Inl e, p)
      | Some (Inr (encoded, out_size)) \<Rightarrow>
          Some (Inr (calloc_ptr env, out_size),
                p\<lparr>heap := (heap p)(calloc_ptr env \<mapsto> encoded)\<rparr>))"

subsection \<open>Dropping the context\<close>

definition otel_process_ctx_drop_current :: "environment \<Rightarrow> process \<Rightarrow> bool \<times> process" where
  "otel_process_ctx_drop_current env p =
     (let state = published_state p;
          p1 = p\<lparr>published_state := \<lparr>publisher_pid = 0, mapping = NULL, payload = NULL\<rparr>\<rparr>;
          (ok, p2) =
            (if ctx_is_published p1 state then
               (if munmap_ret env = 0
                then (True, p1\<lparr>mappings := (mappings p1)(mapping state := None)\<rparr>)
                else (False, p1))
             else (True, p1))
      in (ok, free (payload state) p2))"

subsection \<open>Updating a published context\<close>

text \<open>
  The statements of \<^verbatim>\<open>otel_process_ctx_update\<close> after the new payload is encoded, in
  program order. Each is one step of the update as an observer of the header sees it.
\<close>

datatype update_action =
    Store_published_at_ns "64 word"
  | Fence
  | Store_payload_size "32 word"
  | Store_payload addr
  | Name_mapping
  | Free_old_payload
  | Set_state_payload addr

definition update_program :: "64 word \<Rightarrow> addr \<Rightarrow> 32 word \<Rightarrow> update_action list" where
  "update_program published_at_ns new_payload payload_size =
     [Store_published_at_ns 0,
      Fence,
      Store_payload_size payload_size,
      Store_payload new_payload,
      Fence,
      Store_published_at_ns published_at_ns,
      Name_mapping,
      Free_old_payload,
      Set_state_payload new_payload]"

fun perform :: "update_action \<Rightarrow> process \<Rightarrow> process option" where
  "perform (Store_published_at_ns t) p =
     store_mapping (\<lambda>m. m\<lparr>otel_process_ctx_published_at_ns := t\<rparr>) p"
| "perform Fence p = Some p"
| "perform (Store_payload_size n) p =
     store_mapping (\<lambda>m. m\<lparr>otel_process_payload_size := n\<rparr>) p"
| "perform (Store_payload a) p = store_mapping (\<lambda>m. m\<lparr>otel_process_payload := a\<rparr>) p"
| "perform Name_mapping p = Some p"
| "perform Free_old_payload p = Some (free (payload (published_state p)) p)"
| "perform (Set_state_payload a) p =
     Some (p\<lparr>published_state := (published_state p)\<lparr>payload := a\<rparr>\<rparr>)"

fun run :: "update_action list \<Rightarrow> process \<Rightarrow> process option" where
  "run [] p = Some p"
| "run (a # as) p = Option.bind (perform a p) (run as)"

text \<open>
  The step relation of the update: a configuration is the statements still to be
  executed and the process state.
\<close>

inductive update_step ::
    "update_action list \<times> process \<Rightarrow> update_action list \<times> process \<Rightarrow> bool" where
  step: "perform a p = Some p' \<Longrightarrow> update_step (a # as, p) (as, p')"

definition otel_process_ctx_update ::
    "environment \<Rightarrow> 64 word \<Rightarrow> otel_process_ctx_data option \<Rightarrow> process \<Rightarrow>
     (otel_process_ctx_result \<times> process) option" where
  "otel_process_ctx_update env published_at_ns data p =
     (case data of
        None \<Rightarrow> Some (failure err_not_published, p)
      | Some d \<Rightarrow>
          if \<not> ctx_is_published p (published_state p) then Some (failure err_not_published, p)
          else (case encode_payload env d p of
                  None \<Rightarrow> None
                | Some (Inl e, p1) \<Rightarrow> Some (failure e, p1)
                | Some (Inr (new_payload, payload_size), p1) \<Rightarrow>
                    (case run (update_program published_at_ns new_payload payload_size) p1 of
                       None \<Rightarrow> None
                     | Some p2 \<Rightarrow> Some (succeeded, p2))))"

subsection \<open>Publishing\<close>

text \<open>A freshly mapped region is zero-filled.\<close>

definition zero_mapping :: otel_process_ctx_mapping where
  "zero_mapping =
     \<lparr>otel_process_ctx_signature = replicate 8 NUL, otel_process_ctx_version = 0,
      otel_process_payload_size = 0, otel_process_ctx_published_at_ns = 0,
      otel_process_payload = NULL\<rparr>"

definition mmap :: "environment \<Rightarrow> process \<Rightarrow> process" where
  "mmap env p =
     (let p1 = p\<lparr>published_state := (published_state p)\<lparr>mapping := mmap_ptr env\<rparr>\<rparr>
      in if mmap_ptr env = MAP_FAILED then p1
         else p1\<lparr>mappings := (mappings p1)(mmap_ptr env \<mapsto> zero_mapping)\<rparr>)"

text \<open>
  The steps "Populate the mapping", the fence, and "Populate the signature into the
  mapping" of \<^verbatim>\<open>otel_process_ctx_publish\<close>; the result of \<^verbatim>\<open>prctl\<close> is ignored.
\<close>

definition publish_populate ::
    "64 word \<Rightarrow> 32 word \<Rightarrow> process \<Rightarrow> (otel_process_ctx_result \<times> process) option" where
  "publish_populate published_at_ns payload_size p =
     (case store_mapping
             (\<lambda>m. \<lparr>otel_process_ctx_signature = replicate 8 NUL,
                    otel_process_ctx_version = 2,
                    otel_process_payload_size = payload_size,
                    otel_process_ctx_published_at_ns = published_at_ns,
                    otel_process_payload = payload (published_state p)\<rparr>) p of
        None \<Rightarrow> None
      | Some p1 \<Rightarrow>
          (case store_mapping
                  (\<lambda>m. m\<lparr>otel_process_ctx_signature := take 8 OTEL_CTX_SIGNATURE\<rparr>) p1 of
             None \<Rightarrow> None
           | Some p2 \<Rightarrow> Some (succeeded, p2)))"

text \<open>The steps "Create the mapping" and "Setup MADV_DONTFORK", then the population.\<close>

definition publish_create_mapping ::
    "environment \<Rightarrow> 64 word \<Rightarrow> 32 word \<Rightarrow> process \<Rightarrow>
     (otel_process_ctx_result \<times> process) option" where
  "publish_create_mapping env published_at_ns payload_size p =
     (let p1 = p\<lparr>published_state := (published_state p)\<lparr>publisher_pid := pid p\<rparr>\<rparr>;
          fd = memfd_create_fd env
      in if fd \<ge> 0 \<and> ftruncate_ret env = - 1 then
           Some (failure err_truncate, snd (otel_process_ctx_drop_current env p1))
         else
           (let p2 = mmap env p1;
                failed_to_close_fd = (fd \<ge> 0 \<and> close_ret env = - 1)
            in if mapping (published_state p2) = MAP_FAILED \<or> failed_to_close_fd then
                 Some (failure (if failed_to_close_fd then err_close else err_mapping),
                       snd (otel_process_ctx_drop_current env p2))
               else if madvise_ret env = - 1 then
                 (case otel_process_ctx_drop_current env p2 of
                    (dropped, p3) \<Rightarrow>
                      Some (failure (if dropped then err_madvise else err_drop), p3))
               else publish_populate published_at_ns payload_size p2))"

definition otel_process_ctx_publish ::
    "environment \<Rightarrow> otel_process_ctx_data option \<Rightarrow> process \<Rightarrow>
     (otel_process_ctx_result \<times> process) option" where
  "otel_process_ctx_publish env data p =
     (case data of
        None \<Rightarrow> Some (failure err_data_null, p)
      | Some d \<Rightarrow>
          (let published_at_ns = time_now_ns env
           in if published_at_ns = 0 then Some (failure err_time, p)
              else if ctx_is_published p (published_state p)
              then otel_process_ctx_update env published_at_ns data p
              else (case otel_process_ctx_drop_current env p of
                (dropped, p1) \<Rightarrow>
                  if \<not> dropped then Some (failure err_drop_previous, p1)
                  else (case encode_payload env d p1 of
                    None \<Rightarrow> None
                  | Some (Inl e, p2) \<Rightarrow> Some (failure e, p2)
                  | Some (Inr (new_payload, payload_size), p2) \<Rightarrow>
                      publish_create_mapping env published_at_ns payload_size
                        (p2\<lparr>published_state :=
                              (published_state p2)\<lparr>payload := new_payload\<rparr>\<rparr>)))))"

subsection \<open>Example processes and the states of an update\<close>

text \<open>
  An environment in which every call succeeds, and a process that has not published.
\<close>

definition good_env :: environment where
  "good_env =
     \<lparr>clock_gettime = Some \<lparr>tv_sec = 1700000000, tv_nsec = 5\<rparr>,
      calloc_ptr = 4096, memfd_create_fd = 3, ftruncate_ret = 0, mmap_ptr = 65536,
      close_ret = 0, madvise_ret = 0, munmap_ret = 0, prctl_ret = 0\<rparr>"

definition unpublished_process :: process where
  "unpublished_process =
     \<lparr>published_state = initial_state, mappings = Map.empty, heap = Map.empty, pid = 1000\<rparr>"

text \<open>
  The header after the first \<open>k\<close> statements of the update program, and the process
  state after them, for a process whose mapping holds the header \<open>h\<close>.
\<close>

definition header_after ::
    "nat \<Rightarrow> 64 word \<Rightarrow> addr \<Rightarrow> 32 word \<Rightarrow> otel_process_ctx_mapping \<Rightarrow>
     otel_process_ctx_mapping" where
  "header_after k published_at_ns new_payload payload_size h =
     (if k = 0 then h
      else if k \<le> 2 then h\<lparr>otel_process_ctx_published_at_ns := 0\<rparr>
      else if k = 3 then
        h\<lparr>otel_process_ctx_published_at_ns := 0, otel_process_payload_size := payload_size\<rparr>
      else if k \<le> 5 then
        h\<lparr>otel_process_ctx_published_at_ns := 0, otel_process_payload_size := payload_size,
          otel_process_payload := new_payload\<rparr>
      else
        h\<lparr>otel_process_payload_size := payload_size, otel_process_payload := new_payload,
          otel_process_ctx_published_at_ns := published_at_ns\<rparr>)"

definition process_after ::
    "nat \<Rightarrow> 64 word \<Rightarrow> addr \<Rightarrow> 32 word \<Rightarrow> otel_process_ctx_mapping \<Rightarrow> process \<Rightarrow> process" where
  "process_after k published_at_ns new_payload payload_size h p =
     (let st = published_state p;
          q = p\<lparr>mappings := (mappings p)(mapping st \<mapsto>
                  header_after k published_at_ns new_payload payload_size h)\<rparr>
      in if k \<le> 7 then q
         else if k = 8 then free (payload st) q
         else (free (payload st) q)\<lparr>published_state := st\<lparr>payload := new_payload\<rparr>\<rparr>)"

subsection \<open>Notions used in the statements\<close>

text \<open>
  An attribute object is complete when none of its values is \<^verbatim>\<open>NULL\<close>: the seven
  identity fields are set and the resources array holds whole pairs. Its strings are the
  keys and values that the encoder sees.
\<close>

definition complete_data :: "otel_process_ctx_data \<Rightarrow> bool" where
  "complete_data data \<longleftrightarrow>
     deployment_environment_name data \<noteq> None \<and> service_instance_id data \<noteq> None \<and>
     service_name data \<noteq> None \<and> service_version data \<noteq> None \<and>
     telemetry_sdk_language data \<noteq> None \<and> telemetry_sdk_version data \<noteq> None \<and>
     telemetry_sdk_name data \<noteq> None \<and>
     (case resources data of None \<Rightarrow> True | Some rs \<Rightarrow> even (length rs))"

definition data_strings :: "otel_process_ctx_data \<Rightarrow> cstring list" where
  "data_strings data =
     [s. Some s \<leftarrow> identity_pairs data] @
     (case resources data of None \<Rightarrow> [] | Some rs \<Rightarrow> rs)"

text \<open>
  A length is written exactly when it is within the 14-bit range and the varint that
  \<^verbatim>\<open>write_protobuf_varint\<close> stores for it is read back by \<^verbatim>\<open>read_protobuf_varint\<close>
  as the same number.
\<close>

definition varint_exact :: "nat \<Rightarrow> bool" where
  "varint_exact n \<longleftrightarrow>
     n \<le> UINT14_MAX \<and>
     (\<exists>buf p. write_protobuf_varint (uint16_t n) (replicate 2 NUL, 0) = Some (buf, p) \<and>
              read_protobuf_varint (take p buf) = Some (n, []))"

text \<open>
  A string of the attribute object is well formed when it has no NUL byte (it is a C
  string) and at most \<^verbatim>\<open>KEY_VALUE_LIMIT\<close> bytes. The keys of a resources array
  are its cells at even positions.
\<close>

definition cstring_ok :: "cstring \<Rightarrow> bool" where
  "cstring_ok s \<longleftrightarrow> NUL \<notin> set s \<and> length s \<le> KEY_VALUE_LIMIT"

definition identity_keys :: "cstring list" where
  "identity_keys =
     [''deployment.environment.name'', ''service.instance.id'', ''service.name'',
      ''service.version'', ''telemetry.sdk.language'', ''telemetry.sdk.version'',
      ''telemetry.sdk.name'']"

definition resource_list :: "otel_process_ctx_data \<Rightarrow> cstring list" where
  "resource_list data = (case resources data of None \<Rightarrow> [] | Some rs \<Rightarrow> rs)"

fun resource_keys :: "cstring list \<Rightarrow> cstring list" where
  "resource_keys (key # val # rest) = key # resource_keys rest"
| "resource_keys _ = []"

text \<open>
  Encoding (with a successful \<^verbatim>\<open>calloc\<close>) followed by decoding of the buffer and
  size that the encoder returned.
\<close>

definition encode_then_decode ::
    "bool list \<Rightarrow> byte list \<Rightarrow> byte list \<Rightarrow> otel_process_ctx_data \<Rightarrow>
     otel_process_ctx_data option" where
  "encode_then_decode allocs key_buf value_buf data =
     (case otel_process_ctx_encode_protobuf_payload True data of
        Some (Inr (encoded, out_size)) \<Rightarrow>
          otel_process_ctx_decode_payload allocs encoded out_size key_buf value_buf
      | _ \<Rightarrow> None)"

text \<open>Example inputs, from the demo driver \<^verbatim>\<open>example_ctx.c\<close>.\<close>

definition example_resources :: "cstring list" where
  "example_resources =
     [''resource.key1'', ''resource.value1'', ''resource.key2'', ''resource.value2'']"

definition example_data :: otel_process_ctx_data where
  "example_data =
     \<lparr>deployment_environment_name = Some ''prod'',
      service_instance_id = Some ''123d8444-2c7e-46e3-89f6-6217880f7123'',
      service_name = Some ''my-service'',
      service_version = Some ''4.5.6'',
      telemetry_sdk_language = Some ''c'',
      telemetry_sdk_version = Some ''1.2.3'',
      telemetry_sdk_name = Some ''example_ctx.c'',
      resources = Some example_resources\<rparr>"

definition example_update_data :: otel_process_ctx_data where
  "example_update_data =
     \<lparr>deployment_environment_name = Some ''staging'',
      service_instance_id = Some ''456d8444-2c7e-46e3-89f6-6217880f7456'',
      service_name = Some ''my-service-updated'',
      service_version = Some ''7.8.9'',
      telemetry_sdk_language = Some ''c'',
      telemetry_sdk_version = Some ''1.2.3'',
      telemetry_sdk_name = Some ''example_ctx.c'',
      resources = Some example_resources\<rparr>"

definition identity_strings :: "otel_process_ctx_data \<Rightarrow> cstring list" where
  "identity_strings data = [s. Some s \<leftarrow> identity_pairs data]"


definition collision_data :: otel_process_ctx_data where
  "collision_data = example_data\<lparr>resources := Some [''service.name'', ''shadowed'']\<rparr>"

definition oversize_data :: otel_process_ctx_data where
  "oversize_data = example_data\<lparr>service_name := Some (replicate 4097 CHR ''x'')\<rparr>"

definition null_value_oversize_data :: otel_process_ctx_data where
  "null_value_oversize_data =
     example_data\<lparr>service_version := Some (replicate 4097 CHR ''x''),
                  telemetry_sdk_name := None\<rparr>"

subsection \<open>The bytes that the writers emit\<close>

text \<open>
  Each writer stores a fixed sequence of bytes at the cursor and advances it by their
  number. These functions name the sequences; the lemmas of the next section show that
  the writers emit exactly them.
\<close>

definition varint_bytes :: "nat \<Rightarrow> byte list" where
  "varint_bytes val =
     (if val \<ge> 128 then [char_of ((val AND 0x7F) OR 0x80), char_of (drop_bit 7 val)]
      else [char_of val])"

definition tag_byte :: "nat \<Rightarrow> byte" where
  "tag_byte field_number = char_of (push_bit 3 field_number OR 2)"

definition string_bytes :: "cstring \<Rightarrow> byte list" where
  "string_bytes str = varint_bytes (uint16_t (length str)) @ str"

definition attribute_bytes :: "cstring \<Rightarrow> cstring \<Rightarrow> byte list" where
  "attribute_bytes key val =
     tag_byte 1 # varint_bytes (uint16_t (protobuf_otel_keyvalue_string_size key val)) @
     tag_byte 1 # string_bytes key @
     tag_byte 2 # varint_bytes (uint16_t (protobuf_string_size val)) @
     tag_byte 1 # string_bytes val"

fun pairs_bytes :: "cstring option list \<Rightarrow> byte list" where
  "pairs_bytes (Some key # Some val # rest) = attribute_bytes key val @ pairs_bytes rest"
| "pairs_bytes _ = []"


definition keyvalue_bytes :: "cstring \<Rightarrow> cstring \<Rightarrow> byte list" where
  "keyvalue_bytes key val =
     tag_byte 1 # string_bytes key @
     tag_byte 2 # varint_bytes (uint16_t (protobuf_string_size val)) @
     tag_byte 1 # string_bytes val"

definition payload_bytes :: "otel_process_ctx_data \<Rightarrow> byte list" where
  "payload_bytes data =
     pairs_bytes (identity_pairs data) @
     (case resources data of None \<Rightarrow> [] | Some rs \<Rightarrow> pairs_bytes (resources_array rs))"

text \<open>
  What the dispatch at the end of one iteration of the decoder's outer loop stores for a
  key and a value, and its iteration over a list of alternating keys and values.
\<close>

definition store_pair ::
    "cstring \<Rightarrow> cstring \<Rightarrow> otel_process_ctx_data \<times> cstring list \<Rightarrow>
     otel_process_ctx_data \<times> cstring list" where
  "store_pair key val acc =
     (case acc of (data_out, rs) \<Rightarrow>
        if key = ''deployment.environment.name'' then
          (data_out\<lparr>deployment_environment_name := Some val\<rparr>, rs)
        else if key = ''service.instance.id'' then
          (data_out\<lparr>service_instance_id := Some val\<rparr>, rs)
        else if key = ''service.name'' then (data_out\<lparr>service_name := Some val\<rparr>, rs)
        else if key = ''service.version'' then (data_out\<lparr>service_version := Some val\<rparr>, rs)
        else if key = ''telemetry.sdk.language'' then
          (data_out\<lparr>telemetry_sdk_language := Some val\<rparr>, rs)
        else if key = ''telemetry.sdk.version'' then
          (data_out\<lparr>telemetry_sdk_version := Some val\<rparr>, rs)
        else if key = ''telemetry.sdk.name'' then
          (data_out\<lparr>telemetry_sdk_name := Some val\<rparr>, rs)
        else (data_out, rs @ [key, val]))"

fun store_pairs ::
    "cstring list \<Rightarrow> otel_process_ctx_data \<times> cstring list \<Rightarrow>
     otel_process_ctx_data \<times> cstring list" where
  "store_pairs (key # val # rest) acc = store_pairs rest (store_pair key val acc)"
| "store_pairs _ acc = acc"

subsection \<open>The payloads that the decoder accepts\<close>

text \<open>
  The format of a payload, stated on the bytes and following the list of checks in the
  specification of the decoder: every tag has wire type LEN; a varint has one byte, or
  two bytes of which the first has its top bit set, and a value of at most 16383; a
  string is a varint length of at most 4096 followed by that many bytes; a KeyValue
  record is a tag with field number 1, a varint length, and a body of that length made of
  fields, among them a key and a value; a payload is a sequence of such records in which
  each of the seven identity keys occurs and at most 100 records have another key.

  The fields of a KeyValue body as the decoder reads them: field 1 is a string, the key;
  field 2 is a varint (the AnyValue length, which is not compared with anything) and a
  tag, followed by a string, the value, when that tag's field number is 1; for any other
  field number only the tag belongs to the field. Of repeated keys or values the last
  one counts. Keys are compared, and keys and values returned, as C strings.
\<close>

definition wire_type :: "byte \<Rightarrow> nat" where
  "wire_type t = of_char t mod 8"

definition field_number :: "byte \<Rightarrow> nat" where
  "field_number t = of_char t div 8"

inductive varint_of :: "byte list \<Rightarrow> nat \<Rightarrow> bool" where
  one_byte: "(of_char b :: nat) < 128 \<Longrightarrow> n = of_char b \<Longrightarrow> varint_of [b] n"
| two_bytes: "(of_char b1 :: nat) \<ge> 128 \<Longrightarrow> n = of_char b1 - 128 + 128 * of_char b2 \<Longrightarrow>
              n \<le> 16383 \<Longrightarrow> varint_of [b1, b2] n"

inductive len_string :: "byte list \<Rightarrow> byte list \<Rightarrow> bool" where
  len_string: "varint_of v (length s) \<Longrightarrow> length s \<le> 4096 \<Longrightarrow> len_string (v @ s) s"

datatype kv_field = Key "byte list" | Value "byte list" | Skipped

inductive kv_field_bytes :: "byte list \<Rightarrow> kv_field \<Rightarrow> bool" where
  key: "wire_type t = 2 \<Longrightarrow> field_number t = 1 \<Longrightarrow> len_string bs s \<Longrightarrow>
        kv_field_bytes (t # bs) (Key s)"
| string_value:
    "wire_type t = 2 \<Longrightarrow> field_number t = 2 \<Longrightarrow> varint_of v any_len \<Longrightarrow>
     wire_type t' = 2 \<Longrightarrow> field_number t' = 1 \<Longrightarrow> len_string bs s \<Longrightarrow>
     kv_field_bytes (t # v @ t' # bs) (Value s)"
| other_value:
    "wire_type t = 2 \<Longrightarrow> field_number t = 2 \<Longrightarrow> varint_of v any_len \<Longrightarrow>
     wire_type t' = 2 \<Longrightarrow> field_number t' \<noteq> 1 \<Longrightarrow>
     kv_field_bytes (t # v @ [t']) Skipped"
| other_field:
    "wire_type t = 2 \<Longrightarrow> field_number t \<noteq> 1 \<Longrightarrow> field_number t \<noteq> 2 \<Longrightarrow>
     kv_field_bytes [t] Skipped"

inductive kv_fields :: "byte list \<Rightarrow> kv_field list \<Rightarrow> bool" where
  no_field: "kv_fields [] []"
| next_field: "kv_field_bytes a f \<Longrightarrow> kv_fields bs fs \<Longrightarrow> kv_fields (a @ bs) (f # fs)"

fun last_key :: "kv_field list \<Rightarrow> byte list option" where
  "last_key [] = None"
| "last_key (f # fs) =
     (case last_key fs of Some k \<Rightarrow> Some k
      | None \<Rightarrow> (case f of Key k \<Rightarrow> Some k | _ \<Rightarrow> None))"

fun last_value :: "kv_field list \<Rightarrow> byte list option" where
  "last_value [] = None"
| "last_value (f # fs) =
     (case last_value fs of Some x \<Rightarrow> Some x
      | None \<Rightarrow> (case f of Value x \<Rightarrow> Some x | _ \<Rightarrow> None))"

inductive keyvalue_record :: "byte list \<Rightarrow> byte list \<times> byte list \<Rightarrow> bool" where
  keyvalue_record:
    "wire_type t = 2 \<Longrightarrow> field_number t = 1 \<Longrightarrow> varint_of v (length body) \<Longrightarrow>
     kv_fields body fs \<Longrightarrow> last_key fs = Some k \<Longrightarrow> last_value fs = Some x \<Longrightarrow>
     keyvalue_record (t # v @ body) (k, x)"

inductive records :: "byte list \<Rightarrow> (byte list \<times> byte list) list \<Rightarrow> bool" where
  no_record: "records [] []"
| next_record: "keyvalue_record a kv \<Longrightarrow> records bs kvs \<Longrightarrow> records (a @ bs) (kv # kvs)"

definition accepted_payload :: "byte list \<Rightarrow> bool" where
  "accepted_payload bs \<longleftrightarrow>
     (\<exists>kvs. records bs kvs \<and>
            (\<forall>k\<in>set identity_keys. k \<in> set (map (\<lambda>kv. c_str (fst kv)) kvs)) \<and>
            length (filter (\<lambda>kv. c_str (fst kv) \<notin> set identity_keys) kvs) \<le> 100)"

text \<open>What a field of a KeyValue body does to the flags and buffers of the inner loop.\<close>

fun apply_field :: "kv_field \<Rightarrow> kv_state \<Rightarrow> kv_state" where
  "apply_field (Key s) st = st\<lparr>key_buffer := s, key_found := True\<rparr>"
| "apply_field (Value s) st = st\<lparr>value_buffer := s, value_found := True\<rparr>"
| "apply_field Skipped st = st"

text \<open>What the decoder stores for a sequence of records, given as their keys and values.\<close>

definition store_all ::
    "(byte list \<times> byte list) list \<Rightarrow> otel_process_ctx_data \<times> cstring list \<Rightarrow>
     otel_process_ctx_data \<times> cstring list" where
  "store_all kvs acc = fold (\<lambda>kv. store_pair (c_str (fst kv)) (c_str (snd kv))) kvs acc"

text \<open>
  The final check of the decoder, and the example payload with the resource pairs in
  front of the identity pairs.
\<close>

definition identity_fields_set :: "otel_process_ctx_data \<Rightarrow> bool" where
  "identity_fields_set d \<longleftrightarrow>
     deployment_environment_name d \<noteq> None \<and> service_instance_id d \<noteq> None \<and>
     service_name d \<noteq> None \<and> service_version d \<noteq> None \<and>
     telemetry_sdk_language d \<noteq> None \<and> telemetry_sdk_version d \<noteq> None \<and>
     telemetry_sdk_name d \<noteq> None"


subsection \<open>A published example and the view of a reader\<close>

text \<open>
  The process after the demo driver's first publish, in the environment where every
  call succeeds; the environment of its second publish (a later clock reading and the
  next heap block), one in which \<^verbatim>\<open>calloc\<close> fails, and one in which
  \<^verbatim>\<open>clock_gettime\<close> fails.
\<close>

definition example_header :: otel_process_ctx_mapping where
  "example_header =
     \<lparr>otel_process_ctx_signature = ''OTEL_CTX'', otel_process_ctx_version = 2,
      otel_process_payload_size = 336,
      otel_process_ctx_published_at_ns = 1700000000000000005,
      otel_process_payload = 4096\<rparr>"

definition published_process :: process where
  "published_process =
     \<lparr>published_state = \<lparr>publisher_pid = 1000, mapping = 65536, payload = 4096\<rparr>,
      mappings = [65536 \<mapsto> example_header],
      heap = [4096 \<mapsto> payload_bytes example_data],
      pid = 1000\<rparr>"

definition update_env :: environment where
  "update_env = good_env\<lparr>clock_gettime := Some \<lparr>tv_sec = 1700000005, tv_nsec = 7\<rparr>,
                         calloc_ptr := 8192\<rparr>"

definition oom_env :: environment where
  "oom_env = update_env\<lparr>calloc_ptr := NULL\<rparr>"

definition clockless_env :: environment where
  "clockless_env = update_env\<lparr>clock_gettime := None\<rparr>"

text \<open>
  What a reader that looks at the header at address \<open>a\<close> sees: the header, and the
  bytes of the heap block that its payload pointer leads to, if that block is live.
\<close>

definition reader_view ::
    "process \<Rightarrow> addr \<Rightarrow> (otel_process_ctx_mapping \<times> byte list option) option" where
  "reader_view q a = map_option (\<lambda>m. (m, heap q (otel_process_payload m))) (mappings q a)"

section \<open>Properties of the codec\<close>

subsection \<open>Writers as appends\<close>

lemma put_char_memcpy: "put_char c = memcpy_advance [c]"
proof
  fix w show "put_char c w = memcpy_advance [c] w"
    by (cases w) (simp add: put_char_def memcpy_advance_def upd_conv_take_nth_drop Suc_le_eq)
qed

lemma memcpy_advance_Nil: "snd w \<le> length (fst w) \<Longrightarrow> memcpy_advance [] w = Some w"
  by (cases w) (simp add: memcpy_advance_def)

lemma memcpy_advance_inv:
  "memcpy_advance a w = Some w' \<Longrightarrow> snd w' \<le> length (fst w')"
  by (cases w) (auto simp: memcpy_advance_def split: if_splits)

lemma memcpy_advance_append:
  "Option.bind (memcpy_advance a w) (memcpy_advance b) = memcpy_advance (a @ b) w"
proof (cases w)
  case (Pair buf p)
  show ?thesis
  proof (cases "p + length a \<le> length buf")
    case True
    then have "min (length buf) p = p" by simp
    with True show ?thesis
      by (simp add: Pair memcpy_advance_def drop_take ac_simps)
  next
    case False
    then show ?thesis by (simp add: Pair memcpy_advance_def)
  qed
qed

lemma bind_memcpy_advance:
  "Option.bind (memcpy_advance a w) (\<lambda>w. memcpy_advance b w) = memcpy_advance (a @ b) w"
  using memcpy_advance_append [of a w b] by simp

lemma bind_memcpy_advance_assoc:
  "Option.bind (memcpy_advance a w) (\<lambda>w. Option.bind (memcpy_advance b w) f)
   = Option.bind (memcpy_advance (a @ b) w) f"
proof -
  have "Option.bind (memcpy_advance a w) (\<lambda>w. Option.bind (memcpy_advance b w) f)
        = Option.bind (Option.bind (memcpy_advance a w) (memcpy_advance b)) f"
    by (cases "memcpy_advance a w") simp_all
  then show ?thesis by (simp add: memcpy_advance_append)
qed

lemma write_protobuf_varint_bytes:
  "write_protobuf_varint val = memcpy_advance (varint_bytes val)"
proof
  fix w show "write_protobuf_varint val w = memcpy_advance (varint_bytes val) w"
    using memcpy_advance_append [of "[char_of ((val AND 0x7F) OR 0x80)]" w "[char_of (drop_bit 7 val)]"]
    by (simp add: write_protobuf_varint_def varint_bytes_def protobuf_varint_size_def
      put_char_memcpy)
qed

lemma write_protobuf_tag_bytes: "write_protobuf_tag n = memcpy_advance [tag_byte n]"
  by (rule ext) (simp add: write_protobuf_tag_def tag_byte_def put_char_memcpy)

lemma write_protobuf_string_bytes:
  "write_protobuf_string str = memcpy_advance (string_bytes str)"
  by (rule ext) (simp add: write_protobuf_string_def string_bytes_def write_protobuf_varint_bytes
      memcpy_advance_append)

lemma write_attribute_bytes:
  "write_attribute key val = memcpy_advance (attribute_bytes key val)"
  by (rule ext) (simp add: write_attribute_def attribute_bytes_def write_protobuf_varint_bytes
      write_protobuf_tag_bytes write_protobuf_string_bytes bind_memcpy_advance_assoc
      bind_memcpy_advance)

lemma write_pairs_bytes:
  "snd w \<le> length (fst w) \<Longrightarrow> write_pairs pairs w = memcpy_advance (pairs_bytes pairs) w"
proof (induction pairs w rule: write_pairs.induct)
  case (1 key val rest w)
  show ?case
  proof (cases "memcpy_advance (attribute_bytes key val) w")
    case None
    then show ?thesis 
      using memcpy_advance_append [of "attribute_bytes key val" w "pairs_bytes rest"]
      by (simp add: write_attribute_bytes)
  next
    case (Some w')
    then have "snd w' \<le> length (fst w')" by (rule memcpy_advance_inv)
    with Some show ?thesis
      using memcpy_advance_append [of "attribute_bytes key val" w "pairs_bytes rest"] 
        "1.IH" [of w']
      by (simp add: write_attribute_bytes)
  qed
qed (simp_all add: memcpy_advance_Nil)

lemma length_varint_bytes: "length (varint_bytes n) = protobuf_varint_size n"
  by (simp add: varint_bytes_def protobuf_varint_size_def)

lemma length_string_bytes: "Suc (length (string_bytes s)) = protobuf_string_size s"
  by (simp add: string_bytes_def protobuf_string_size_def protobuf_record_size_def
      length_varint_bytes)

lemma length_attribute_bytes:
  "length (attribute_bytes key val) =
   protobuf_record_size (protobuf_otel_keyvalue_string_size key val)"
  using length_string_bytes [of key] length_string_bytes [of val]
  by (simp add: attribute_bytes_def length_varint_bytes
      protobuf_record_size_def protobuf_otel_keyvalue_string_size_def Let_def)

lemma validate_loop_size:
  "validate_loop pairs acc = Inr n \<Longrightarrow> n = acc + length (pairs_bytes pairs)"
  by (induction pairs acc rule: validate_loop.induct)
     (auto simp: length_attribute_bytes split: if_splits)


subsection \<open>Bit operations as arithmetic\<close>

lemma and_127: "(n::nat) AND 0x7F = n mod 128"
proof -
  have "mask 7 = (127::nat)" by (simp add: mask_eq_exp_minus_1)
  then show ?thesis using take_bit_eq_mask [of 7 n] by (simp add: take_bit_eq_mod)
qed

lemma and_7: "(n::nat) AND 0x07 = n mod 8"
proof -
  have "mask 3 = (7::nat)" by (simp add: mask_eq_exp_minus_1)
  then show ?thesis using take_bit_eq_mask [of 3 n] by (simp add: take_bit_eq_mod)
qed

lemma or_push7: 
  assumes "a < 128" shows "(a::nat) OR push_bit 7 b = a + 128 * b"
proof -
  have "\<not> bit a n \<or> \<not> bit (push_bit 7 b) n" for n
  proof (cases "n < 7")
    case True
    then show ?thesis by (simp add: bit_push_bit_iff)
  next
    case False
    then have "(2::nat) ^ 7 \<le> 2 ^ n" by (intro power_increasing) simp_all
    with assms have "a < 2 ^ n" by simp
    then show ?thesis by (simp add: bit_iff_odd)
  qed
  then have "a + push_bit 7 b = a OR push_bit 7 b" by (rule disjunctive_add)
  then show ?thesis by (simp add: push_bit_eq_mult)
qed

lemma or_128: "a < 128 \<Longrightarrow> (a::nat) OR 0x80 = a + 128"
  using or_push7 [of a 1] by simp

lemma drop_bit_7: "drop_bit 7 (n::nat) = n div 128"
  by (simp add: drop_bit_eq_div)

lemma drop_bit_3: "drop_bit 3 (n::nat) = n div 8"
  by (simp add: drop_bit_eq_div)

lemma read_varint_bytes:
  assumes "n \<le> UINT14_MAX"
  shows "read_protobuf_varint (varint_bytes n @ rest) = Some (n, rest)"
proof (cases "n \<ge> 128")
  case False
  then show ?thesis
    by (simp add: varint_bytes_def read_protobuf_varint_def)
next
  case True
  from assms have n: "n < 16384" by (simp add: UINT14_MAX_def)
  have b1: "((n AND 0x7F) OR 0x80) mod 256 = n mod 128 + (128::nat)"
    by (simp add: and_127 or_128)
  have b2: "drop_bit 7 n mod 256 = n div (128::nat)"
    using n by (simp add: drop_bit_7)
  have v: "((n mod 128 + 128) AND 0x7F) OR push_bit 7 (n div 128) = n"
    by (simp only: and_127 or_push7) simp
  show ?thesis using True n
    by (simp add: varint_bytes_def read_protobuf_varint_def b1 b2 v uint16_t_def
        UINT14_MAX_def Let_def)
qed


subsection \<open>Lengths fit the two-byte varint\<close>

lemma varint_exactI:
  assumes "n \<le> UINT14_MAX" shows "varint_exact n"
proof -
  from assms have u: "uint16_t n = n" by (simp add: uint16_t_def UINT14_MAX_def)
  have len: "length (varint_bytes n) \<le> 2" by (simp add: varint_bytes_def)
  then have "memcpy_advance (varint_bytes n) (replicate 2 NUL, 0)
        = Some (varint_bytes n @ replicate (2 - length (varint_bytes n)) NUL, length (varint_bytes n))"
    by (simp add: memcpy_advance_def)
  moreover have "read_protobuf_varint (varint_bytes n) = Some (n, [])"
    using read_varint_bytes [OF assms, of "[]"] by simp
  ultimately show ?thesis using assms
    by (simp add: varint_exact_def u write_protobuf_varint_bytes)
qed

lemma record_size_le: "n \<le> 16380 \<Longrightarrow> protobuf_record_size n \<le> n + 3"
  by (simp add: protobuf_record_size_def protobuf_varint_size_def)

text \<open>
  Claim C7. For a key and a value of at most 4096 bytes each, every length that the
  encoder writes as a varint (the key length, the value length, the size of the AnyValue
  record and the size of the KeyValue record) is at most 16383 and is written without
  truncation: the one or two bytes stored for it read back as the same number. The
  KeyValue record size is at most 8201.
\<close>

theorem keyvalue_lengths_fit_14_bits:
  assumes "length key \<le> KEY_VALUE_LIMIT" and "length val \<le> KEY_VALUE_LIMIT"
  shows "varint_exact (length key) \<and> varint_exact (length val) \<and>
         varint_exact (protobuf_string_size val) \<and>
         varint_exact (protobuf_otel_keyvalue_string_size key val) \<and>
         protobuf_otel_keyvalue_string_size key val \<le> 8201"
proof -
  from assms have k: "length key \<le> 4096" and v: "length val \<le> 4096"
    by (simp_all add: KEY_VALUE_LIMIT_def)
  have s: "protobuf_string_size val \<le> 4099" "protobuf_string_size key \<le> 4099"
    using k v record_size_le [of "length val"] record_size_le [of "length key"]
    by (simp_all add: protobuf_string_size_def)
  then have kv: "protobuf_otel_keyvalue_string_size key val \<le> 8201"
    using record_size_le [of "protobuf_string_size val"]
    by (simp add: protobuf_otel_keyvalue_string_size_def Let_def)
  show ?thesis using k v s kv
    by (auto intro!: varint_exactI simp: UINT14_MAX_def)
qed

theorem keyvalue_lengths_fit_14_bits_witness:
  "length (replicate 4096 CHR ''k'') \<le> KEY_VALUE_LIMIT \<and>
   length (replicate 4096 CHR ''v'') \<le> KEY_VALUE_LIMIT \<and>
   protobuf_otel_keyvalue_string_size (replicate 4096 CHR ''k'') (replicate 4096 CHR ''v'') = 8201 \<and>
   varint_exact (protobuf_otel_keyvalue_string_size (replicate 4096 CHR ''k'') (replicate 4096 CHR ''v''))"
  using keyvalue_lengths_fit_14_bits [of "replicate 4096 CHR ''k''" "replicate 4096 CHR ''v''"]
  by (simp add: KEY_VALUE_LIMIT_def protobuf_otel_keyvalue_string_size_def
      protobuf_string_size_def protobuf_record_size_def protobuf_varint_size_def uint16_t_def)

subsection \<open>The size pre-pass and the emit pass agree\<close>

lemma validate_size:
  "validate_and_calculate_protobuf_payload_size pairs = Inr n \<Longrightarrow> n = length (pairs_bytes pairs)"
  by (auto simp: validate_and_calculate_protobuf_payload_size_def Let_def
      split: if_splits dest: validate_loop_size)

lemma encode_total_size_length:
  "encode_total_size data = Inr total_size \<Longrightarrow> total_size = length (payload_bytes data)"
  by (auto simp: encode_total_size_def payload_bytes_def split: sum.splits option.splits
      dest: validate_size)

lemma memcpy_advance_whole:
  "memcpy_advance bs (replicate (length bs) c, 0) = Some (bs, length bs)"
  by (simp add: memcpy_advance_def)

lemma encode_emit_bytes:
  "encode_emit data (replicate (length (payload_bytes data)) NUL, 0)
   = Some (payload_bytes data, length (payload_bytes data))"
proof -
  let ?a = "pairs_bytes (identity_pairs data)"
  let ?w = "(replicate (length (payload_bytes data)) NUL, 0::nat)"
  show ?thesis
  proof (cases "resources data")
    case None
    then show ?thesis
      by (simp add: encode_emit_def payload_bytes_def write_pairs_bytes memcpy_advance_whole)
  next
    case (Some rs)
    let ?b = "pairs_bytes (resources_array rs)"
    have "Option.bind (memcpy_advance ?a ?w) (\<lambda>w. write_pairs (resources_array rs) w)
        = Option.bind (memcpy_advance ?a ?w) (memcpy_advance ?b)"
      by (cases "memcpy_advance ?a ?w")
         (auto simp: write_pairs_bytes dest: memcpy_advance_inv)
    also have "\<dots> = memcpy_advance (?a @ ?b) ?w" by (rule memcpy_advance_append)
    also have "\<dots> = Some (?a @ ?b, length (?a @ ?b))"
      using memcpy_advance_whole [of "?a @ ?b" NUL] by (simp add: payload_bytes_def Some)
    finally show ?thesis
      by (simp add: encode_emit_def payload_bytes_def Some write_pairs_bytes)
  qed
qed

text \<open>
  Claim C9. For every attribute object that passes validation, the emit pass writes
  exactly the bytes that the size pre-pass counted: started at offset 0 of the
  zero-initialised buffer of \<open>total_size\<close> bytes, it makes no store outside the buffer
  (the result is not \<open>None\<close>), it leaves the write pointer at \<open>total_size\<close>, the end of
  the buffer, and the buffer then holds the records of the seven identity pairs followed
  by the records of the resource pairs, \<open>total_size\<close> bytes in all, none of them left
  unwritten; the encoder returns this buffer and \<open>total_size\<close> as its size.
\<close>

theorem emit_pass_fills_buffer_exactly:
  assumes "encode_total_size data = Inr total_size"
  shows "encode_emit data (replicate total_size NUL, 0) = Some (payload_bytes data, total_size)
           \<and> length (payload_bytes data) = total_size
           \<and> otel_process_ctx_encode_protobuf_payload True data
               = Some (Inr (payload_bytes data, of_nat total_size))"
proof -
  from assms have size: "total_size = length (payload_bytes data)"
    by (rule encode_total_size_length)
  then have emit: "encode_emit data (replicate total_size NUL, 0)
                   = Some (payload_bytes data, total_size)"
    using encode_emit_bytes [of data] by simp
  with assms size show ?thesis
    by (simp add: otel_process_ctx_encode_protobuf_payload_def)
qed

lemma example_total_size: "encode_total_size example_data = Inr 336"
  by (simp add: encode_total_size_def example_data_def example_resources_def identity_pairs_def
      resources_array_def validate_and_calculate_protobuf_payload_size_def
      KEY_VALUE_LIMIT_def protobuf_record_size_def protobuf_otel_keyvalue_string_size_def
      protobuf_string_size_def protobuf_varint_size_def uint16_t_def)

lemma encode_example:
  "otel_process_ctx_encode_protobuf_payload True example_data
   = Some (Inr (payload_bytes example_data, 336))"
  using encode_total_size_length [OF example_total_size] encode_emit_bytes [of example_data]
    example_total_size
  by (simp add: otel_process_ctx_encode_protobuf_payload_def)

theorem emit_pass_fills_buffer_exactly_witness:
  "encode_total_size example_data = Inr 336 \<and>
   encode_emit example_data (replicate 336 NUL, 0) = Some (payload_bytes example_data, 336) \<and>
   length (payload_bytes example_data) = 336 \<and>
   otel_process_ctx_encode_protobuf_payload True example_data
     = Some (Inr (payload_bytes example_data, 336)) \<and>
   map of_char (take 8 (payload_bytes example_data))
     = [10, 37, 10, 27, 100, 101, 112, 108 :: nat]"
proof -
  have "map of_char (take 8 (payload_bytes example_data))
     = [10, 37, 10, 27, 100, 101, 112, 108 :: nat]"
    by (simp add: payload_bytes_def identity_pairs_def example_data_def attribute_bytes_def
        varint_bytes_def string_bytes_def tag_byte_def uint16_t_def
        protobuf_otel_keyvalue_string_size_def
        protobuf_string_size_def protobuf_record_size_def protobuf_varint_size_def)
  then show ?thesis
    using emit_pass_fills_buffer_exactly [OF example_total_size] example_total_size by simp
qed

subsection \<open>The length limit of the encoder\<close>

lemma sublist_key_too_long: "sublist ''exceeds 4096 limit'' err_key_too_long"
  unfolding sublist_def err_key_too_long_def
  by (rule exI [of _ "''Length of key in otel_process_ctx_data ''"]) simp

lemma sublist_value_too_long: "sublist ''exceeds 4096 limit'' err_value_too_long"
  unfolding sublist_def err_value_too_long_def
  by (rule exI [of _ "''Length of value in otel_process_ctx_data ''"]) simp

lemma takeWhile_resources_array:
  "takeWhile (\<lambda>p. p \<noteq> None) (resources_array xs) = map Some xs"
  by (induction xs) (simp_all add: resources_array_def)

lemma validate_loop_array_ok:
  "even (length xs) \<Longrightarrow> \<forall>s\<in>set xs. length s \<le> KEY_VALUE_LIMIT \<Longrightarrow>
   validate_loop (resources_array xs) acc = Inr (acc + length (pairs_bytes (resources_array xs)))"
proof (induction xs arbitrary: acc rule: induct_list012)
  case (3 x y zs)
  then show ?case
    by (simp add: resources_array_def length_attribute_bytes)
qed (simp_all add: resources_array_def)

lemma validate_loop_array_long:
  "even (length xs) \<Longrightarrow> \<exists>s\<in>set xs. length s > KEY_VALUE_LIMIT \<Longrightarrow>
   validate_loop (resources_array xs) acc = Inl err_key_too_long \<or>
   validate_loop (resources_array xs) acc = Inl err_value_too_long"
proof (induction xs arbitrary: acc rule: induct_list012)
  case (3 x y zs)
  then show ?case
    by (auto simp: resources_array_def)
qed (simp_all add: resources_array_def)

lemma validate_array_ok:
  "even (length xs) \<Longrightarrow> \<forall>s\<in>set xs. length s \<le> KEY_VALUE_LIMIT \<Longrightarrow>
   validate_and_calculate_protobuf_payload_size (resources_array xs)
   = Inr (length (pairs_bytes (resources_array xs)))"
  by (simp add: validate_and_calculate_protobuf_payload_size_def takeWhile_resources_array
      validate_loop_array_ok del: not_None_eq)

lemma validate_array_long:
  "even (length xs) \<Longrightarrow> \<exists>s\<in>set xs. length s > KEY_VALUE_LIMIT \<Longrightarrow>
   validate_and_calculate_protobuf_payload_size (resources_array xs) = Inl err_key_too_long \<or>
   validate_and_calculate_protobuf_payload_size (resources_array xs) = Inl err_value_too_long"
  using validate_loop_array_long [of xs 0]
  by (simp add: validate_and_calculate_protobuf_payload_size_def takeWhile_resources_array
      del: not_None_eq)

lemma identity_pairs_complete:
  "complete_data data \<Longrightarrow> identity_pairs data = resources_array (identity_strings data)
     \<and> even (length (identity_strings data))"
  by (auto simp: complete_data_def identity_pairs_def resources_array_def identity_strings_def)

text \<open>
  Claim C6 (as amended). For a complete attribute object in which every key and every
  value has at most 4096 bytes, encoding succeeds when the buffer can be allocated and otherwise
  fails with the allocation message only; for a complete attribute object with a key or
  a value of 4097 bytes, encoding fails with a message that contains
  \<open>exceeds 4096 limit\<close>, and a failure carries no buffer.
\<close>

theorem encode_length_limit:
  assumes "complete_data data"
  shows "((\<forall>s\<in>set (data_strings data). length s \<le> KEY_VALUE_LIMIT) \<longrightarrow>
            (\<exists>encoded size. otel_process_ctx_encode_protobuf_payload True data
                             = Some (Inr (encoded, size))) \<and>
            otel_process_ctx_encode_protobuf_payload False data = Some (Inl err_payload_alloc)) \<and>
         ((\<exists>s\<in>set (data_strings data). length s = KEY_VALUE_LIMIT + 1) \<longrightarrow>
            (\<exists>msg. otel_process_ctx_encode_protobuf_payload calloc_ok data = Some (Inl msg) \<and>
                   sublist ''exceeds 4096 limit'' msg))"
proof (intro conjI impI)
  assume short: "\<forall>s\<in>set (data_strings data). length s \<le> KEY_VALUE_LIMIT"
  from assms have ip: "identity_pairs data = resources_array (identity_strings data)"
    and ev: "even (length (identity_strings data))"
    using identity_pairs_complete by blast+
  from short have s1: "\<forall>s\<in>set (identity_strings data). length s \<le> KEY_VALUE_LIMIT"
    by (simp add: data_strings_def identity_strings_def)
  have v1: "validate_and_calculate_protobuf_payload_size (identity_pairs data)
            = Inr (length (pairs_bytes (identity_pairs data)))"
    using validate_array_ok [OF ev s1] by (simp add: ip)
  have "\<exists>n. encode_total_size data = Inr n"
  proof (cases "resources data")
    case None
    then show ?thesis by (simp add: encode_total_size_def v1)
  next
    case (Some rs)
    with assms have "even (length rs)" by (simp add: complete_data_def)
    moreover from short Some have "\<forall>s\<in>set rs. length s \<le> KEY_VALUE_LIMIT"
      by (simp add: data_strings_def)
    ultimately show ?thesis
      using validate_array_ok [of rs] by (simp add: encode_total_size_def v1 Some)
  qed
  then obtain n where n: "encode_total_size data = Inr n" ..
  from encode_total_size_length [OF n] encode_emit_bytes [of data] n
  show "\<exists>encoded size. otel_process_ctx_encode_protobuf_payload True data
                             = Some (Inr (encoded, size))"
    by (simp add: otel_process_ctx_encode_protobuf_payload_def)
  from n show "otel_process_ctx_encode_protobuf_payload False data = Some (Inl err_payload_alloc)"
    by (simp add: otel_process_ctx_encode_protobuf_payload_def)
next
  assume "\<exists>s\<in>set (data_strings data). length s = KEY_VALUE_LIMIT + 1"
  then obtain s where s: "s \<in> set (data_strings data)" "length s > KEY_VALUE_LIMIT" by auto
  from assms have ip: "identity_pairs data = resources_array (identity_strings data)"
    and ev: "even (length (identity_strings data))"
    using identity_pairs_complete by blast+
  have "encode_total_size data = Inl err_key_too_long \<or>
        encode_total_size data = Inl err_value_too_long"
  proof (cases "\<exists>s\<in>set (identity_strings data). length s > KEY_VALUE_LIMIT")
    case True
    from validate_array_long [OF ev True] show ?thesis
      by (auto simp: encode_total_size_def ip)
  next
    case False
    then have s1: "\<forall>s\<in>set (identity_strings data). length s \<le> KEY_VALUE_LIMIT" by auto
    have v1: "validate_and_calculate_protobuf_payload_size (identity_pairs data)
            = Inr (length (pairs_bytes (identity_pairs data)))"
      using validate_array_ok [OF ev s1] by (simp add: ip)
    from s False have "s \<in> set (case resources data of None \<Rightarrow> [] | Some rs \<Rightarrow> rs)"
      by (auto simp: data_strings_def identity_strings_def)
    then obtain rs where rs: "resources data = Some rs" "s \<in> set rs"
      by (cases "resources data") simp_all
    with assms have "even (length rs)" by (simp add: complete_data_def)
    moreover from rs s have "\<exists>s\<in>set rs. length s > KEY_VALUE_LIMIT" by blast
    ultimately have "validate_and_calculate_protobuf_payload_size (resources_array rs)
          = Inl err_key_too_long \<or>
        validate_and_calculate_protobuf_payload_size (resources_array rs)
          = Inl err_value_too_long"
      by (rule validate_array_long)
    then show ?thesis
      by (auto simp: encode_total_size_def v1 rs)
  qed
  then show "\<exists>msg. otel_process_ctx_encode_protobuf_payload calloc_ok data = Some (Inl msg) \<and>
                   sublist ''exceeds 4096 limit'' msg"
    by (auto simp: otel_process_ctx_encode_protobuf_payload_def sublist_key_too_long
        sublist_value_too_long)
qed

lemma complete_example_data: "complete_data example_data"
  by (simp add: complete_data_def example_data_def example_resources_def)

theorem encode_length_limit_witness:
  "complete_data example_data \<and> complete_data oversize_data \<and>
   list_all (\<lambda>s. length s \<le> KEY_VALUE_LIMIT) (data_strings example_data) \<and>
   (\<exists>encoded size. otel_process_ctx_encode_protobuf_payload True example_data
                             = Some (Inr (encoded, size))) \<and>
   (\<exists>s\<in>set (data_strings oversize_data). length s = KEY_VALUE_LIMIT + 1) \<and>
   (\<exists>msg. otel_process_ctx_encode_protobuf_payload True oversize_data = Some (Inl msg) \<and>
                   sublist ''exceeds 4096 limit'' msg)"
proof -
  have c1: "complete_data example_data" by (rule complete_example_data)
  have c2: "complete_data oversize_data"
    using c1 by (simp add: complete_data_def oversize_data_def)
  have s1: "\<forall>s\<in>set (data_strings example_data). length s \<le> KEY_VALUE_LIMIT"
    by (simp add: data_strings_def example_data_def example_resources_def identity_pairs_def
        KEY_VALUE_LIMIT_def)
  have s2: "\<exists>s\<in>set (data_strings oversize_data). length s = KEY_VALUE_LIMIT + 1"
    by (simp add: data_strings_def oversize_data_def identity_pairs_def KEY_VALUE_LIMIT_def)
  show ?thesis
    using encode_length_limit [OF c1, of True] encode_length_limit [OF c2, of True] c1 c2 s1 s2
    unfolding list_all_iff by blast
qed

lemma not_sublist_value_null: "\<not> sublist ''exceeds 4096 limit'' err_value_null"
  by (simp add: err_value_null_def src_loc_def sublist_code)

text \<open>
  Claim C6 as stated, for any attribute object, fails: the check for \<^verbatim>\<open>NULL\<close> values
  runs before the length checks, so for the example object with a version of 4097 bytes
  and no SDK name the encoder fails with the message about a \<^verbatim>\<open>NULL\<close> value, which
  does not contain \<open>exceeds 4096 limit\<close>.
\<close>

theorem encode_length_limit_counterexample:
  "service_version null_value_oversize_data = Some (replicate 4097 CHR ''x'') \<and>
   length (replicate 4097 CHR ''x'') = KEY_VALUE_LIMIT + 1 \<and>
   otel_process_ctx_encode_protobuf_payload True null_value_oversize_data
     = Some (Inl err_value_null) \<and>
   \<not> sublist ''exceeds 4096 limit'' err_value_null"
  by (simp add: not_sublist_value_null null_value_oversize_data_def example_data_def
      KEY_VALUE_LIMIT_def otel_process_ctx_encode_protobuf_payload_def encode_total_size_def
      identity_pairs_def validate_and_calculate_protobuf_payload_size_def)

subsection \<open>Reading back what the writers emit\<close>

lemma attribute_bytes_keyvalue:
  "attribute_bytes key val =
   tag_byte 1 # varint_bytes (uint16_t (protobuf_otel_keyvalue_string_size key val)) @
   keyvalue_bytes key val"
  by (simp add: attribute_bytes_def keyvalue_bytes_def)

lemma length_keyvalue_bytes:
  "length (keyvalue_bytes key val) = protobuf_otel_keyvalue_string_size key val"
  using length_string_bytes [of key] length_string_bytes [of val]
  by (simp add: keyvalue_bytes_def length_varint_bytes protobuf_otel_keyvalue_string_size_def
      protobuf_record_size_def Let_def)

lemma read_tag_1: "read_protobuf_tag (tag_byte 1 # rest) = Some (1, rest)"
  by (simp add: read_protobuf_tag_def tag_byte_def)

lemma read_tag_Suc_0: "read_protobuf_tag (tag_byte (Suc 0) # rest) = Some (Suc 0, rest)"
  using read_tag_1 by simp

lemma read_tag_2: "read_protobuf_tag (tag_byte 2 # rest) = Some (2, rest)"
  by (simp add: read_protobuf_tag_def tag_byte_def)

lemma read_string_bytes:
  assumes "length s \<le> KEY_VALUE_LIMIT"
  shows "read_protobuf_string (string_bytes s @ rest) = Some (s, rest)"
proof -
  from assms have "length s \<le> UINT14_MAX" and u: "uint16_t (length s) = length s"
    by (simp_all add: KEY_VALUE_LIMIT_def UINT14_MAX_def uint16_t_def)
  then have "read_protobuf_varint (varint_bytes (length s) @ s @ rest) = Some (length s, s @ rest)"
    using read_varint_bytes by blast
  with assms show ?thesis
    by (simp add: read_protobuf_string_def string_bytes_def u)
qed

lemma parse_keyvalue_bytes:
  assumes "length key \<le> KEY_VALUE_LIMIT" and "length val \<le> KEY_VALUE_LIMIT"
  shows "parse_keyvalue (keyvalue_bytes key val) st =
         Some \<lparr>key_found = True, value_found = True, key_buffer = key, value_buffer = val\<rparr>"
proof -
  from assms(2) have "protobuf_string_size val \<le> 4099"
    by (simp add: protobuf_string_size_def protobuf_record_size_def protobuf_varint_size_def
        KEY_VALUE_LIMIT_def)
  then have le: "protobuf_string_size val \<le> UINT14_MAX"
    and u: "uint16_t (protobuf_string_size val) = protobuf_string_size val"
    by (simp_all add: UINT14_MAX_def uint16_t_def)
  have 3: "parse_keyvalue [] s = Some s" for s
    by (simp add: parse_keyvalue.simps)
  have 2: "parse_keyvalue (tag_byte 2 # varint_bytes (protobuf_string_size val) @
                           tag_byte 1 # string_bytes val) s
           = Some (s\<lparr>value_buffer := val, value_found := True\<rparr>)" for s
    using read_varint_bytes [OF le, of "tag_byte 1 # string_bytes val"]
      read_string_bytes [OF assms(2), of "[]"]
    by (subst parse_keyvalue.simps) (simp add: read_tag_2 read_tag_Suc_0 3)
  note 2 [unfolded One_nat_def, simp]
  show ?thesis
    using read_string_bytes [OF assms(1)]
    by (subst parse_keyvalue.simps) (cases st, simp add: keyvalue_bytes_def read_tag_Suc_0 u)
qed

subsection \<open>Decoding what the encoder produced\<close>

lemma c_str_id: "NUL \<notin> set s \<Longrightarrow> c_str s = s"
  by (simp add: c_str_def takeWhile_eq_all_conv) metis

lemma next_alloc_all:
  "list_all (\<lambda>ok. ok) allocs \<Longrightarrow>
   \<exists>allocs'. next_alloc allocs = (True, allocs') \<and> list_all (\<lambda>ok. ok) allocs'"
  by (cases allocs) simp_all

lemma strdup_all:
  "list_all (\<lambda>ok. ok) allocs \<Longrightarrow>
   \<exists>allocs'. strdup allocs buffer = (Some (c_str buffer), allocs') \<and> list_all (\<lambda>ok. ok) allocs'"
  using next_alloc_all [of allocs] by (auto simp: strdup_def)

lemma length_store_pair: "length (snd (store_pair key val (data_out, rs))) \<le> length rs + 2"
  by (simp add: store_pair_def)

lemma decode_loop_attribute:
  assumes key: "cstring_ok key" and val: "cstring_ok val"
    and allocs: "list_all (\<lambda>ok. ok) allocs"
    and room: "length (snd (store_pair key val (data_out, rs))) < resource_capacity"
  shows "\<exists>allocs'. list_all (\<lambda>ok. ok) allocs' \<and>
           decode_loop (attribute_bytes key val @ rest) allocs buffers data_out rs =
           (case store_pair key val (data_out, rs) of (data_out', rs') \<Rightarrow>
              decode_loop rest allocs' (key, val) data_out' rs')"
proof -
  let ?n = "protobuf_otel_keyvalue_string_size key val"
  from key val have lens: "length key \<le> KEY_VALUE_LIMIT" "length val \<le> KEY_VALUE_LIMIT"
    and ck: "c_str key = key" and cv: "c_str val = val"
    by (simp_all add: cstring_ok_def c_str_id)
  from lens have "?n \<le> 8201"
    by (simp add: protobuf_otel_keyvalue_string_size_def protobuf_string_size_def
        protobuf_record_size_def protobuf_varint_size_def KEY_VALUE_LIMIT_def Let_def)
  then have le: "?n \<le> UINT14_MAX" and u: "uint16_t ?n = ?n"
    by (simp_all add: UINT14_MAX_def uint16_t_def)
  have rv: "read_protobuf_varint (varint_bytes ?n @ keyvalue_bytes key val @ rest)
            = Some (?n, keyvalue_bytes key val @ rest)"
    using read_varint_bytes [OF le] by blast
  from strdup_all [OF allocs, of val] obtain allocs1
    where a1: "strdup allocs val = (Some val, allocs1)" "list_all (\<lambda>ok. ok) allocs1"
    by (auto simp: cv)
  from strdup_all [OF a1(2), of key] obtain allocs2
    where a2: "strdup allocs1 key = (Some key, allocs2)" "list_all (\<lambda>ok. ok) allocs2"
    by (auto simp: ck)
  have step: "decode_loop (attribute_bytes key val @ rest) allocs buffers data_out rs =
        (if key = ''deployment.environment.name'' then
           decode_loop rest allocs1 (key, val)
             (data_out\<lparr>deployment_environment_name := Some val\<rparr>) rs
         else if key = ''service.instance.id'' then
           decode_loop rest allocs1 (key, val) (data_out\<lparr>service_instance_id := Some val\<rparr>) rs
         else if key = ''service.name'' then
           decode_loop rest allocs1 (key, val) (data_out\<lparr>service_name := Some val\<rparr>) rs
         else if key = ''service.version'' then
           decode_loop rest allocs1 (key, val) (data_out\<lparr>service_version := Some val\<rparr>) rs
         else if key = ''telemetry.sdk.language'' then
           decode_loop rest allocs1 (key, val)
             (data_out\<lparr>telemetry_sdk_language := Some val\<rparr>) rs
         else if key = ''telemetry.sdk.version'' then
           decode_loop rest allocs1 (key, val)
             (data_out\<lparr>telemetry_sdk_version := Some val\<rparr>) rs
         else if key = ''telemetry.sdk.name'' then
           decode_loop rest allocs1 (key, val) (data_out\<lparr>telemetry_sdk_name := Some val\<rparr>) rs
         else decode_loop rest allocs2 (key, val) data_out (rs @ [key, val]))"
    using room
    by (subst decode_loop.simps)
       (auto simp add: store_pair_def attribute_bytes_keyvalue u read_tag_Suc_0 rv length_keyvalue_bytes
          parse_keyvalue_bytes [OF lens] a1 a2 ck Let_def)
  show ?thesis
  proof (cases "key \<in> {''deployment.environment.name'', ''service.instance.id'',
      ''service.name'', ''service.version'', ''telemetry.sdk.language'',
      ''telemetry.sdk.version'', ''telemetry.sdk.name''}")
    case True
    then show ?thesis
      by (intro exI [of _ allocs1]) (auto simp: step store_pair_def a1)
  next
    case False
    then show ?thesis
      by (intro exI [of _ allocs2]) (simp add: step store_pair_def a2)
  qed
qed

lemma length_store_pairs_mono:
  "length rs \<le> length (snd (store_pairs xs (data_out, rs)))"
proof (induction xs arbitrary: data_out rs rule: induct_list012)
  case (3 x y zs)
  obtain d' rs' where sp: "store_pair x y (data_out, rs) = (d', rs')" by force
  then have "length rs \<le> length rs'" by (auto simp: store_pair_def split: if_splits)
  with 3(1) [of rs' d'] sp show ?case by simp
qed simp_all

lemma pairs_bytes_array_Cons2:
  "pairs_bytes (resources_array (k # v # xs)) = attribute_bytes k v @ pairs_bytes (resources_array xs)"
  by (simp add: resources_array_def)

lemma decode_loop_pairs:
  assumes "even (length xs)" and "\<forall>s\<in>set xs. cstring_ok s" and "list_all (\<lambda>ok. ok) allocs"
    and "length (snd (store_pairs xs (data_out, rs))) < resource_capacity"
  shows "decode_loop (pairs_bytes (resources_array xs)) allocs buffers data_out rs
         = Some (store_pairs xs (data_out, rs))"
  using assms
proof (induction xs arbitrary: allocs buffers data_out rs rule: induct_list012)
  case 1
  then show ?case by (simp add: resources_array_def decode_loop.simps)
next
  case (2 x)
  then show ?case by simp
next
  case (3 x y zs)
  obtain d' rs' where sp: "store_pair x y (data_out, rs) = (d', rs')" by force
  from 3 have ok: "cstring_ok x" "cstring_ok y" "\<forall>s\<in>set zs. cstring_ok s" "even (length zs)"
    by simp_all
  from "3.prems"(4) sp have fin: "length (snd (store_pairs zs (d', rs'))) < resource_capacity"
    by simp
  with length_store_pairs_mono [of rs' zs d']
  have room: "length (snd (store_pair x y (data_out, rs))) < resource_capacity"
    by (simp add: sp)
  from decode_loop_attribute [OF ok(1,2) "3.prems"(3) room,
      of "pairs_bytes (resources_array zs)" buffers]
  obtain allocs' where a: "list_all (\<lambda>ok. ok) allocs'"
    and step: "decode_loop (attribute_bytes x y @ pairs_bytes (resources_array zs)) allocs buffers
                 data_out rs
               = decode_loop (pairs_bytes (resources_array zs)) allocs' (x, y) d' rs'"
    by (auto simp: sp)
  show ?case
    using "3.IH"(1) [OF ok(4) ok(3) a fin] step
    by (simp add: pairs_bytes_array_Cons2 sp)
qed

lemma pairs_bytes_append:
  "even (length xs) \<Longrightarrow>
   pairs_bytes (resources_array (xs @ ys))
   = pairs_bytes (resources_array xs) @ pairs_bytes (resources_array ys)"
  by (induction xs rule: induct_list012) (simp_all add: resources_array_def)

lemma payload_bytes_complete:
  assumes "complete_data data"
  shows "payload_bytes data
         = pairs_bytes (resources_array (identity_strings data @ resource_list data))"
proof -
  from assms have ip: "identity_pairs data = resources_array (identity_strings data)"
    and ev: "even (length (identity_strings data))"
    using identity_pairs_complete by blast+
  show ?thesis
    by (cases "resources data")
       (simp_all add: payload_bytes_def ip pairs_bytes_append [OF ev] resource_list_def)
qed

lemma length_attribute_bytes_le:
  "length key \<le> KEY_VALUE_LIMIT \<Longrightarrow> length val \<le> KEY_VALUE_LIMIT \<Longrightarrow>
   length (attribute_bytes key val) \<le> 8204"
  by (simp add: length_attribute_bytes protobuf_otel_keyvalue_string_size_def
      protobuf_string_size_def protobuf_record_size_def protobuf_varint_size_def
      KEY_VALUE_LIMIT_def Let_def uint16_t_def)

lemma length_pairs_bytes_le:
  "\<forall>s\<in>set xs. length s \<le> KEY_VALUE_LIMIT \<Longrightarrow>
   length (pairs_bytes (resources_array xs)) \<le> 8204 * length xs"
proof (induction xs rule: induct_list012)
  case (3 x y zs)
  then show ?case
    using length_attribute_bytes_le [of x y] by (simp add: pairs_bytes_array_Cons2)
qed (simp_all add: resources_array_def)

text \<open>What the decoder returns for the bytes of any complete attribute object within the caps.\<close>

lemma decode_encoded:
  assumes complete: "complete_data data"
    and strings: "\<forall>s\<in>set (data_strings data). cstring_ok s"
    and allocs: "list_all (\<lambda>ok. ok) allocs"
    and stored: "store_pairs (identity_strings data @ resource_list data) (empty_data, [])
                 = (data_out, rs)"
    and cap: "length rs < resource_capacity" "length (resource_list data) \<le> 200"
  shows "otel_process_ctx_encode_protobuf_payload True data
           = Some (Inr (payload_bytes data, of_nat (length (payload_bytes data))))"
    and "otel_process_ctx_decode_payload allocs (payload_bytes data)
           (of_nat (length (payload_bytes data))) key_buf value_buf
         = (if deployment_environment_name data_out \<noteq> None \<and>
               service_instance_id data_out \<noteq> None \<and>
               service_name data_out \<noteq> None \<and>
               service_version data_out \<noteq> None \<and>
               telemetry_sdk_language data_out \<noteq> None \<and>
               telemetry_sdk_version data_out \<noteq> None \<and>
               telemetry_sdk_name data_out \<noteq> None
            then Some (data_out\<lparr>resources := Some rs\<rparr>) else None)"
proof -
  let ?xs = "identity_strings data @ resource_list data"
  have ds: "set (data_strings data) = set ?xs"
    by (simp add: data_strings_def identity_strings_def resource_list_def)
  from complete have len1: "length (identity_strings data) = 14"
    by (auto simp: identity_strings_def identity_pairs_def complete_data_def)
  then have ev1: "even (length (identity_strings data))" by simp
  from complete have ev2: "even (length (resource_list data))"
    by (auto simp: complete_data_def resource_list_def split: option.splits)
  from strings ds have ok: "\<forall>s\<in>set ?xs. cstring_ok s" by simp
  then have short: "\<forall>s\<in>set ?xs. length s \<le> KEY_VALUE_LIMIT" by (simp add: cstring_ok_def)
  have pb: "payload_bytes data = pairs_bytes (resources_array ?xs)"
    using complete by (rule payload_bytes_complete)
  have "length (payload_bytes data) \<le> 8204 * length ?xs"
    unfolding pb using short by (rule length_pairs_bytes_le)
  also have "\<dots> \<le> 8204 * 214" using len1 cap(2) by simp
  finally have small: "length (payload_bytes data) < 2 ^ 32" by simp
  then have un: "unat (of_nat (length (payload_bytes data)) :: 32 word)
                 = length (payload_bytes data)"
    by (simp add: unat_of_nat)
  from short ds have "\<forall>s\<in>set (data_strings data). length s \<le> KEY_VALUE_LIMIT" by simp
  have sz: "encode_total_size data = Inr (length (payload_bytes data))"
  proof -
    from complete have ip: "identity_pairs data = resources_array (identity_strings data)"
      using identity_pairs_complete by blast
    have v1: "validate_and_calculate_protobuf_payload_size (identity_pairs data)
            = Inr (length (pairs_bytes (identity_pairs data)))"
      using validate_array_ok [OF ev1] short by (simp add: ip)
    show ?thesis
    proof (cases "resources data")
      case None
      then show ?thesis by (simp add: encode_total_size_def v1 payload_bytes_def)
    next
      case (Some r)
      with ev2 short have "validate_and_calculate_protobuf_payload_size (resources_array r)
            = Inr (length (pairs_bytes (resources_array r)))"
        by (intro validate_array_ok) (simp_all add: resource_list_def)
      then show ?thesis by (simp add: encode_total_size_def v1 payload_bytes_def Some)
    qed
  qed
  then show "otel_process_ctx_encode_protobuf_payload True data
           = Some (Inr (payload_bytes data, of_nat (length (payload_bytes data))))"
    using encode_emit_bytes [of data]
    by (simp add: otel_process_ctx_encode_protobuf_payload_def)
  from next_alloc_all [OF allocs] obtain allocs1
    where a1: "next_alloc allocs = (True, allocs1)" "list_all (\<lambda>ok. ok) allocs1" by blast
  have "decode_loop (pairs_bytes (resources_array ?xs)) allocs1 (key_buf, value_buf) empty_data []
        = Some (store_pairs ?xs (empty_data, []))"
    using ev1 ev2 ok a1(2) cap(1) by (intro decode_loop_pairs) (simp_all add: stored)
  then show "otel_process_ctx_decode_payload allocs (payload_bytes data)
           (of_nat (length (payload_bytes data))) key_buf value_buf
         = (if deployment_environment_name data_out \<noteq> None \<and>
               service_instance_id data_out \<noteq> None \<and>
               service_name data_out \<noteq> None \<and>
               service_version data_out \<noteq> None \<and>
               telemetry_sdk_language data_out \<noteq> None \<and>
               telemetry_sdk_version data_out \<noteq> None \<and>
               telemetry_sdk_name data_out \<noteq> None
            then Some (data_out\<lparr>resources := Some rs\<rparr>) else None)"
    by (simp add: otel_process_ctx_decode_payload_def un a1 pb [symmetric] stored
        del: not_None_eq)
qed

lemma store_pairs_append:
  "even (length xs) \<Longrightarrow> store_pairs (xs @ ys) acc = store_pairs ys (store_pairs xs acc)"
  by (induction xs arbitrary: acc rule: induct_list012) simp_all

lemma store_pairs_identity:
  assumes "complete_data data"
  shows "store_pairs (identity_strings data) (empty_data, []) = (data\<lparr>resources := None\<rparr>, [])"
proof -
  from assms obtain v1 v2 v3 v4 v5 v6 v7 where
    "deployment_environment_name data = Some v1" "service_instance_id data = Some v2"
    "service_name data = Some v3" "service_version data = Some v4"
    "telemetry_sdk_language data = Some v5" "telemetry_sdk_version data = Some v6"
    "telemetry_sdk_name data = Some v7"
    by (auto simp: complete_data_def)
  then show ?thesis
    by (cases data)
       (simp add: identity_strings_def identity_pairs_def store_pair_def empty_data_def)
qed

lemma store_pairs_resources:
  "even (length xs) \<Longrightarrow> list_all (\<lambda>key. key \<notin> set identity_keys) (resource_keys xs) \<Longrightarrow>
   store_pairs xs (data_out, rs) = (data_out, rs @ xs)"
proof (induction xs arbitrary: rs rule: induct_list012)
  case (3 x y zs)
  then show ?case by (simp add: store_pair_def identity_keys_def)
qed simp_all

text \<open>
  Claim C3 (as amended). For every complete attribute object whose keys and values are
  C strings of at most 4096 bytes, whose resources array has at most 100 pairs and in
  which no resource key is one of the seven identity key names, decoding the bytes
  produced by encoding the object returns the seven identity fields unchanged and the
  resource pairs unchanged and in input order (a \<^verbatim>\<open>NULL\<close> resources pointer is read back
  as an empty array), when no allocation of the decoder fails.
\<close>

theorem decode_encode_roundtrip:
  assumes "complete_data data"
    and "list_all cstring_ok (data_strings data)"
    and "length (resource_list data) \<le> 200"
    and "list_all (\<lambda>key. key \<notin> set identity_keys) (resource_keys (resource_list data))"
    and "list_all (\<lambda>ok. ok) allocs"
  shows "encode_then_decode allocs key_buf value_buf data
         = Some (data\<lparr>resources := Some (resource_list data)\<rparr>)"
proof -
  from assms(1) have ev1: "even (length (identity_strings data))"
    and ev2: "even (length (resource_list data))"
    using identity_pairs_complete
    by (auto simp: complete_data_def resource_list_def split: option.splits)
  have stored: "store_pairs (identity_strings data @ resource_list data) (empty_data, [])
                = (data\<lparr>resources := None\<rparr>, resource_list data)"
    using store_pairs_resources [OF ev2 assms(4), of "data\<lparr>resources := None\<rparr>" "[]"]
    by (simp add: store_pairs_append [OF ev1] store_pairs_identity [OF assms(1)])
  from assms(2) have strings: "\<forall>s\<in>set (data_strings data). cstring_ok s"
    by (simp add: list_all_iff)
  from assms(3) have cap: "length (resource_list data) < resource_capacity"
    by (simp add: resource_capacity_def)
  from assms(1) have set: "deployment_environment_name data \<noteq> None"
    "service_instance_id data \<noteq> None" "service_name data \<noteq> None"
    "service_version data \<noteq> None" "telemetry_sdk_language data \<noteq> None"
    "telemetry_sdk_version data \<noteq> None" "telemetry_sdk_name data \<noteq> None"
    by (simp_all add: complete_data_def)
  show ?thesis
    using decode_encoded(1) [OF assms(1) strings assms(5) stored cap assms(3)]
      decode_encoded(2) [OF assms(1) strings assms(5) stored cap assms(3), of key_buf value_buf]
      set
    by (simp add: encode_then_decode_def del: not_None_eq)
qed

theorem decode_encode_roundtrip_witness:
  "complete_data example_data \<and>
   list_all cstring_ok (data_strings example_data) \<and>
   length (resource_list example_data) \<le> 200 \<and>
   list_all (\<lambda>key. key \<notin> set identity_keys) (resource_keys (resource_list example_data)) \<and>
   encode_then_decode [] (replicate 4097 NUL) (replicate 4097 NUL) example_data
     = Some example_data"
proof -
  have c: "complete_data example_data" by (rule complete_example_data)
  have s: "list_all cstring_ok (data_strings example_data)"
    by (simp add: data_strings_def example_data_def example_resources_def identity_pairs_def
        cstring_ok_def NUL_def KEY_VALUE_LIMIT_def)
  have n: "length (resource_list example_data) \<le> 200"
    by (simp add: resource_list_def example_data_def example_resources_def)
  have k: "list_all (\<lambda>key. key \<notin> set identity_keys) (resource_keys (resource_list example_data))"
    by (simp add: resource_list_def example_data_def example_resources_def identity_keys_def)
  have r: "example_data\<lparr>resources := Some (resource_list example_data)\<rparr> = example_data"
    by (simp add: resource_list_def example_data_def)
  show ?thesis
    using decode_encode_roundtrip [OF c s n k, of "[]" "replicate 4097 NUL" "replicate 4097 NUL"]
      c s n k
    by (simp add: r)
qed

text \<open>
  The claim as stated fails when a resource key is an identity key name: the decoder
  stores the value of such a pair in the identity field, so the field is overwritten and
  the pair is missing from the resources.
\<close>

theorem decode_encode_roundtrip_counterexample:
  "complete_data collision_data \<and>
   list_all cstring_ok (data_strings collision_data) \<and>
   length (resource_list collision_data) \<le> 200 \<and>
   resource_list collision_data = [''service.name'', ''shadowed''] \<and>
   service_name collision_data = Some ''my-service'' \<and>
   encode_then_decode [] (replicate 4097 NUL) (replicate 4097 NUL) collision_data
     = Some (collision_data\<lparr>service_name := Some ''shadowed'', resources := Some []\<rparr>)"
proof -
  have c: "complete_data collision_data"
    by (simp add: complete_data_def collision_data_def example_data_def)
  have s: "list_all cstring_ok (data_strings collision_data)"
    by (simp add: data_strings_def collision_data_def example_data_def identity_pairs_def
        cstring_ok_def NUL_def KEY_VALUE_LIMIT_def)
  have r: "resource_list collision_data = [''service.name'', ''shadowed'']"
    by (simp add: resource_list_def collision_data_def)
  have n: "length (resource_list collision_data) \<le> 200" by (simp add: r)
  have stored: "store_pairs (identity_strings collision_data @ resource_list collision_data)
                  (empty_data, [])
                = (collision_data\<lparr>service_name := Some ''shadowed'', resources := None\<rparr>, [])"
  proof -
    have "even (length (identity_strings collision_data))"
      using identity_pairs_complete [OF c] by simp
    then have "store_pairs (identity_strings collision_data @ resource_list collision_data)
                 (empty_data, [])
               = store_pairs [''service.name'', ''shadowed'']
                   (collision_data\<lparr>resources := None\<rparr>, [])"
      by (simp add: store_pairs_append store_pairs_identity [OF c] r)
    also have "\<dots> = (collision_data\<lparr>service_name := Some ''shadowed'', resources := None\<rparr>, [])"
      by (simp add: store_pair_def)
    finally show ?thesis .
  qed
  from s have strings: "\<forall>s\<in>set (data_strings collision_data). cstring_ok s"
    by (simp add: list_all_iff)
  have "encode_then_decode [] (replicate 4097 NUL) (replicate 4097 NUL) collision_data
     = Some (collision_data\<lparr>service_name := Some ''shadowed'', resources := Some []\<rparr>)"
    using decode_encoded(1) [OF c strings _ stored _ n, of "[]"]
      decode_encoded(2) [OF c strings _ stored _ n, of "[]" "replicate 4097 NUL"
        "replicate 4097 NUL"]
    by (simp add: encode_then_decode_def resource_capacity_def collision_data_def
        example_data_def)
  with c s n r show ?thesis
    by (simp add: collision_data_def example_data_def)
qed

subsection \<open>The readers and the format\<close>

lemma mod_128_upper: "128 \<le> (x::nat) \<Longrightarrow> x < 256 \<Longrightarrow> x mod 128 = x - 128"
proof -
  assume a: "128 \<le> x" "x < 256"
  then have "x = (x - 128) + 128" "x - 128 < 128" by simp_all
  then show ?thesis by (metis mod_add_self2 mod_less)
qed

lemma of_char_and_127:
  "128 \<le> (of_char b :: nat) \<Longrightarrow> (of_char b :: nat) AND 0x7F = of_char b - 128"
  using mod_128_upper [of "of_char b"] nat_of_char_less_256 [of b] by (simp add: and_127)

lemma varint_value:
  assumes "128 \<le> (of_char b1 :: nat)"
  shows "uint16_t (((of_char b1 :: nat) AND 0x7F) OR push_bit 7 (of_char b2))
         = of_char b1 - 128 + 128 * of_char b2"
proof -
  have lt: "(of_char b1 :: nat) < 256" "(of_char b2 :: nat) < 256"
    by (rule nat_of_char_less_256)+
  with assms have "(of_char b1 :: nat) - 128 < 128" by linarith
  then have "((of_char b1 :: nat) - 128) OR push_bit 7 (of_char b2)
             = of_char b1 - 128 + 128 * of_char b2" by (rule or_push7)
  moreover have "of_char b1 - 128 + 128 * (of_char b2 :: nat) < 65536" using lt by linarith
  ultimately show ?thesis using assms by (simp add: of_char_and_127 uint16_t_def)
qed

lemma read_varint_sound:
  "read_protobuf_varint bs = Some (n, rest) \<Longrightarrow> \<exists>v. bs = v @ rest \<and> varint_of v n"
proof (cases bs)
  case Nil
  assume "read_protobuf_varint bs = Some (n, rest)"
  with Nil show ?thesis by (simp add: read_protobuf_varint_def)
next
  case (Cons b1 bs1)
  assume r: "read_protobuf_varint bs = Some (n, rest)"
  show ?thesis
  proof (cases "(of_char b1 :: nat) < 128")
    case True
    with r Cons have "n = of_char b1" "rest = bs1" by (simp_all add: read_protobuf_varint_def)
    with True Cons show ?thesis by (intro exI [of _ "[b1]"]) (simp add: varint_of.one_byte)
  next
    case False
    with r Cons obtain b2 bs2 where bs1: "bs1 = b2 # bs2"
      by (cases bs1) (simp_all add: read_protobuf_varint_def)
    from False have ge: "128 \<le> (of_char b1 :: nat)" by simp
    from r Cons bs1 False have "n = of_char b1 - 128 + 128 * of_char b2" "n \<le> 16383" "rest = bs2"
      by (simp_all add: read_protobuf_varint_def varint_value [OF ge] UINT14_MAX_def Let_def
          split: if_splits)
    with ge Cons bs1 show ?thesis
      by (intro exI [of _ "[b1, b2]"]) (simp add: varint_of.two_bytes)
  qed
qed

lemma read_varint_complete:
  "varint_of v n \<Longrightarrow> read_protobuf_varint (v @ rest) = Some (n, rest)"
proof (induction rule: varint_of.induct)
  case (one_byte b n)
  then show ?case by (simp add: read_protobuf_varint_def)
next
  case (two_bytes b1 n b2)
  from two_bytes(1) have "\<not> (of_char b1 :: nat) < 128" by simp
  with two_bytes show ?case
    by (simp add: read_protobuf_varint_def varint_value [OF two_bytes(1)] UINT14_MAX_def Let_def)
qed

lemma read_tag_iff:
  "read_protobuf_tag bs = Some (f, rest) \<longleftrightarrow>
   (\<exists>t. bs = t # rest \<and> wire_type t = 2 \<and> field_number t = f)"
  by (cases bs) (auto simp: read_protobuf_tag_def wire_type_def field_number_def and_7
      drop_bit_3 Let_def)

lemma read_string_sound:
  "read_protobuf_string bs = Some (s, rest) \<Longrightarrow> \<exists>b. bs = b @ rest \<and> len_string b s"
proof -
  assume r: "read_protobuf_string bs = Some (s, rest)"
  then obtain len bs1 where v: "read_protobuf_varint bs = Some (len, bs1)"
    and l: "len \<le> 4096" "len \<le> length bs1" and s: "s = take len bs1" "rest = drop len bs1"
    by (auto simp: read_protobuf_string_def KEY_VALUE_LIMIT_def split: option.splits if_splits)
  from read_varint_sound [OF v] obtain vb where vb: "bs = vb @ bs1" "varint_of vb len" by blast
  from l s have ls: "length s = len" by simp
  with vb(2) l(1) have "len_string (vb @ s) s" by (intro len_string.intros) simp_all
  moreover have "bs = (vb @ s) @ rest" using vb(1) s by simp
  ultimately show ?thesis by blast
qed

lemma read_string_complete:
  "len_string b s \<Longrightarrow> read_protobuf_string (b @ rest) = Some (s, rest)"
proof (induction rule: len_string.induct)
  case (len_string v s)
  then show ?case
    using read_varint_complete [of v "length s" "s @ rest"]
    by (simp add: read_protobuf_string_def KEY_VALUE_LIMIT_def)
qed

subsection \<open>The inner loop and the fields of a KeyValue\<close>

lemma kv_field_bytes_nonempty: "kv_field_bytes a f \<Longrightarrow> a \<noteq> []"
  by (auto elim: kv_field_bytes.cases)

lemma read_tag_complete:
  "wire_type t = 2 \<Longrightarrow> read_protobuf_tag (t # rest) = Some (field_number t, rest)"
  by (simp add: read_tag_iff)

lemma parse_keyvalue_field:
  assumes "kv_field_bytes a f"
  shows "parse_keyvalue (a @ bs) st = parse_keyvalue bs (apply_field f st)"
  using assms
proof (cases rule: kv_field_bytes.cases)
  case (key t b s)
  then show ?thesis
    using read_tag_complete [of t "b @ bs"] read_string_complete [of b s bs]
    by (subst parse_keyvalue.simps) simp
next
  case (string_value t v any_len t' b s)
  then show ?thesis
    using read_tag_complete [of t "v @ t' # b @ bs"]
      read_varint_complete [of v any_len "t' # b @ bs"]
      read_tag_complete [of t' "b @ bs"] read_string_complete [of b s bs]
    by (subst parse_keyvalue.simps) simp
next
  case (other_value t v any_len t')
  then show ?thesis
    using read_tag_complete [of t "v @ t' # bs"]
      read_varint_complete [of v any_len "t' # bs"]
      read_tag_complete [of t' bs]
    by (subst parse_keyvalue.simps) simp
next
  case (other_field t)
  then show ?thesis
    using read_tag_complete [of t bs]
    by (subst parse_keyvalue.simps) simp
qed

lemma parse_keyvalue_complete:
  "kv_fields bs fs \<Longrightarrow> parse_keyvalue bs st = Some (fold apply_field fs st)"
proof (induction arbitrary: st rule: kv_fields.induct)
  case no_field
  show ?case by (simp add: parse_keyvalue.simps)
next
  case (next_field a f bs fs)
  then show ?case by (simp add: parse_keyvalue_field)
qed

lemma parse_keyvalue_sound:
  "parse_keyvalue bs st = Some st' \<Longrightarrow> \<exists>fs. kv_fields bs fs \<and> st' = fold apply_field fs st"
proof (induction bs st arbitrary: st' rule: parse_keyvalue.induct)
  case (1 bs st)
  show ?case
  proof (cases "bs = []")
    case True
    with "1.prems" have "st' = st" by (simp add: parse_keyvalue.simps)
    with True show ?thesis by (intro exI [of _ "[]"]) (simp add: kv_fields.no_field)
  next
    case False
    with "1.prems" obtain kv_field bs1 where tag: "read_protobuf_tag bs = Some (kv_field, bs1)"
      by (subst (asm) parse_keyvalue.simps) (auto split: option.splits)
    then obtain t where t: "bs = t # bs1" "wire_type t = 2" "field_number t = kv_field"
      by (auto simp: read_tag_iff)
    consider (k) "kv_field = 1" | (v) "kv_field = 2" | (o) "kv_field \<noteq> 1" "kv_field \<noteq> 2"
      by blast
    then show ?thesis
    proof cases
      case k
      with "1.prems" False tag obtain key bs2 where
        s: "read_protobuf_string bs1 = Some (key, bs2)"
        and r: "parse_keyvalue bs2 (st\<lparr>key_buffer := key, key_found := True\<rparr>) = Some st'"
        by (subst (asm) parse_keyvalue.simps) (auto split: option.splits)
      from read_string_sound [OF s] obtain b where b: "bs1 = b @ bs2" "len_string b key" by blast
      from "1.IH"(1) [OF False tag refl k s refl r] obtain fs where
        fs: "kv_fields bs2 fs" "st' = fold apply_field fs (st\<lparr>key_buffer := key, key_found := True\<rparr>)"
        by blast
      have "kv_field_bytes (t # b) (Key key)" using t k b(2) by (intro kv_field_bytes.key) simp_all
      from kv_fields.next_field [OF this fs(1)] fs(2) t(1) b(1) show ?thesis
        by (intro exI [of _ "Key key # fs"]) simp
    next
      case v
      with "1.prems" False tag obtain any_len bs2 any_field bs3 where
        vi: "read_protobuf_varint bs1 = Some (any_len, bs2)"
        and t2: "read_protobuf_tag bs2 = Some (any_field, bs3)"
        by (subst (asm) parse_keyvalue.simps) (auto split: option.splits)
      from read_varint_sound [OF vi] obtain vb where vb: "bs1 = vb @ bs2" "varint_of vb any_len"
        by blast
      from t2 obtain t' where t': "bs2 = t' # bs3" "wire_type t' = 2" "field_number t' = any_field"
        by (auto simp: read_tag_iff)
      have ne: "kv_field \<noteq> 1" using v by simp
      show ?thesis
      proof (cases "any_field = 1")
        case True
        with "1.prems" False tag v vi t2 obtain val bs4 where
          s: "read_protobuf_string bs3 = Some (val, bs4)"
          and r: "parse_keyvalue bs4 (st\<lparr>value_buffer := val, value_found := True\<rparr>) = Some st'"
          by (subst (asm) parse_keyvalue.simps) (auto split: option.splits)
        from read_string_sound [OF s] obtain b where b: "bs3 = b @ bs4" "len_string b val" by blast
        from "1.IH"(2) [OF False tag refl ne v vi refl t2 refl True s refl r] obtain fs where
          fs: "kv_fields bs4 fs"
          "st' = fold apply_field fs (st\<lparr>value_buffer := val, value_found := True\<rparr>)"
          by blast
        have "kv_field_bytes (t # vb @ t' # b) (Value val)"
          using t v vb(2) t' True b(2) by (intro kv_field_bytes.string_value) simp_all
        from kv_fields.next_field [OF this fs(1)] fs(2) t(1) vb(1) t'(1) b(1) show ?thesis
          by (intro exI [of _ "Value val # fs"]) simp
      next
        case False2: False
        with "1.prems" False tag v vi t2 have r: "parse_keyvalue bs3 st = Some st'"
          by (subst (asm) parse_keyvalue.simps) (auto split: option.splits)
        from "1.IH"(3) [OF False tag refl ne v vi refl t2 refl False2 r] obtain fs where
          fs: "kv_fields bs3 fs" "st' = fold apply_field fs st" by blast
        have "kv_field_bytes (t # vb @ [t']) Skipped"
          using t v vb(2) t' False2 by (intro kv_field_bytes.other_value) simp_all
        from kv_fields.next_field [OF this fs(1)] fs(2) t(1) vb(1) t'(1) show ?thesis
          by (intro exI [of _ "Skipped # fs"]) simp
      qed
    next
      case o
      with "1.prems" False tag have r: "parse_keyvalue bs1 st = Some st'"
        by (subst (asm) parse_keyvalue.simps) (auto split: option.splits)
      from "1.IH"(4) [OF False tag refl o r] obtain fs where
        fs: "kv_fields bs1 fs" "st' = fold apply_field fs st" by blast
      have "kv_field_bytes [t] Skipped" using t o by (intro kv_field_bytes.other_field) simp_all
      from kv_fields.next_field [OF this fs(1)] fs(2) t(1) show ?thesis
        by (intro exI [of _ "Skipped # fs"]) simp
    qed
  qed
qed

subsection \<open>The outer loop and the records of a payload\<close>

lemma fold_apply_field_key:
  "key_found (fold apply_field fs st) = (key_found st \<or> last_key fs \<noteq> None) \<and>
   key_buffer (fold apply_field fs st) = (case last_key fs of None \<Rightarrow> key_buffer st | Some k \<Rightarrow> k)"
proof (induction fs arbitrary: st)
  case Nil
  show ?case by simp
next
  case (Cons f fs)
  show ?case by (cases f) (auto simp: Cons.IH split: option.splits)
qed

lemma fold_apply_field_value:
  "value_found (fold apply_field fs st) = (value_found st \<or> last_value fs \<noteq> None) \<and>
   value_buffer (fold apply_field fs st)
     = (case last_value fs of None \<Rightarrow> value_buffer st | Some x \<Rightarrow> x)"
proof (induction fs arbitrary: st)
  case Nil
  show ?case by simp
next
  case (Cons f fs)
  show ?case by (cases f) (auto simp: Cons.IH split: option.splits)
qed

lemma decode_loop_step:
  assumes tag: "read_protobuf_tag bs = Some (1, bs1)"
    and len: "read_protobuf_varint bs1 = Some (kv_len, bs2)" "kv_len \<le> length bs2"
    and body: "parse_keyvalue (take kv_len bs2)
                 \<lparr>key_found = False, value_found = False,
                  key_buffer = fst buffers, value_buffer = snd buffers\<rparr> = Some st"
      "key_found st" "value_found st"
    and dup: "strdup allocs (value_buffer st) = (Some val, allocs1)"
  shows "decode_loop bs allocs buffers data_out rs =
         (if c_str (key_buffer st) \<in> set identity_keys then
            decode_loop (drop kv_len bs2) allocs1 (key_buffer st, value_buffer st)
              (fst (store_pair (c_str (key_buffer st)) val (data_out, rs))) rs
          else if fst (strdup allocs1 (key_buffer st)) = None \<or>
                  length rs + 2 \<ge> resource_capacity then None
          else decode_loop (drop kv_len bs2) (snd (strdup allocs1 (key_buffer st)))
                 (key_buffer st, value_buffer st) data_out
                 (rs @ [the (fst (strdup allocs1 (key_buffer st))), val]))"
proof -
  from tag have ne: "bs \<noteq> []" by (auto simp: read_tag_iff)
  show ?thesis
    using ne tag len body dup
    by (subst decode_loop.simps)
       (simp add: Let_def store_pair_def identity_keys_def split: prod.splits)
qed

lemma store_pair_identity:
  "key \<in> set identity_keys \<Longrightarrow> snd (store_pair key val (data_out, rs)) = rs"
  by (auto simp: store_pair_def identity_keys_def)

lemma store_pair_resource:
  "key \<notin> set identity_keys \<Longrightarrow> store_pair key val (data_out, rs) = (data_out, rs @ [key, val])"
  by (simp add: store_pair_def identity_keys_def)

lemma store_all_Cons:
  "store_all (kv # kvs) acc = store_all kvs (store_pair (c_str (fst kv)) (c_str (snd kv)) acc)"
  by (simp add: store_all_def)

lemma length_store_all:
  "length (snd (store_all kvs (data_out, rs)))
   = length rs + 2 * length (filter (\<lambda>kv. c_str (fst kv) \<notin> set identity_keys) kvs)"
proof (induction kvs arbitrary: data_out rs)
  case Nil
  show ?case by (simp add: store_all_def)
next
  case (Cons kv kvs)
  show ?case
  proof (cases "c_str (fst kv) \<in> set identity_keys")
    case True
    obtain d' where "store_pair (c_str (fst kv)) (c_str (snd kv)) (data_out, rs) = (d', rs)"
      using store_pair_identity [OF True, of "c_str (snd kv)" data_out rs]
      by (cases "store_pair (c_str (fst kv)) (c_str (snd kv)) (data_out, rs)") simp
    with True show ?thesis by (simp add: store_all_Cons Cons.IH)
  next
    case False
    then show ?thesis by (simp add: store_all_Cons store_pair_resource Cons.IH)
  qed
qed

lemma decode_loop_complete:
  assumes "records bs kvs" and "list_all (\<lambda>ok. ok) allocs"
    and "length (snd (store_all kvs (data_out, rs))) < resource_capacity"
  shows "decode_loop bs allocs buffers data_out rs = Some (store_all kvs (data_out, rs))"
  using assms
proof (induction arbitrary: allocs buffers data_out rs rule: records.induct)
  case no_record
  show ?case by (simp add: decode_loop.simps store_all_def)
next
  case (next_record a kv bs kvs)
  obtain k x where kv: "kv = (k, x)" by (cases kv)
  from next_record.hyps(1) obtain t v body fs where a: "a = t # v @ body"
    and t: "wire_type t = 2" "field_number t = 1" and v: "varint_of v (length body)"
    and fs: "kv_fields body fs" "last_key fs = Some k" "last_value fs = Some x"
    by (auto simp: kv elim: keyvalue_record.cases)
  let ?init = "\<lparr>key_found = False, value_found = False,
               key_buffer = fst buffers, value_buffer = snd buffers\<rparr>"
  let ?st = "fold apply_field fs ?init"
  have tag: "read_protobuf_tag (a @ bs) = Some (1, v @ body @ bs)"
    using read_tag_complete [OF t(1), of "v @ body @ bs"] t(2) by (simp add: a)
  have len: "read_protobuf_varint (v @ body @ bs) = Some (length body, body @ bs)"
    using v by (rule read_varint_complete)
  have body: "parse_keyvalue (take (length body) (body @ bs)) ?init = Some ?st"
    by (simp add: parse_keyvalue_complete [OF fs(1), of ?init])
  have found: "key_found ?st" "value_found ?st" "key_buffer ?st = k" "value_buffer ?st = x"
    using fold_apply_field_key [of fs ?init] fold_apply_field_value [of fs ?init] fs(2,3)
    by simp_all
  from strdup_all [OF next_record.prems(1), of x] obtain allocs1 where
    a1: "strdup allocs x = (Some (c_str x), allocs1)" "list_all (\<lambda>ok. ok) allocs1" by blast
  from strdup_all [OF a1(2), of k] obtain allocs2 where
    a2: "strdup allocs1 k = (Some (c_str k), allocs2)" "list_all (\<lambda>ok. ok) allocs2" by blast
  note step = decode_loop_step [OF tag len _ body found(1,2), of allocs "c_str x" allocs1
      data_out rs, simplified found a1, simplified]
  obtain d' rs' where sp: "store_pair (c_str k) (c_str x) (data_out, rs) = (d', rs')"
    by (cases "store_pair (c_str k) (c_str x) (data_out, rs)")
  from next_record.prems(2) have cap: "length (snd (store_all kvs (d', rs'))) < resource_capacity"
    by (simp add: kv store_all_Cons sp)
  show ?case
  proof (cases "c_str k \<in> set identity_keys")
    case True
    with sp have rs': "rs' = rs" using store_pair_identity [OF True, of "c_str x" data_out rs]
      by simp
    from next_record.IH [OF a1(2) cap, of "(k, x)"] True step show ?thesis
      by (simp add: kv store_all_Cons sp rs')
  next
    case False
    with sp have rs': "rs' = rs @ [c_str k, c_str x]" "d' = data_out"
      by (simp_all add: store_pair_resource)
    from cap have "length rs' < resource_capacity"
      by (simp add: length_store_all)
    then have room: "\<not> length rs + 2 \<ge> resource_capacity" by (simp add: rs')
    from next_record.IH [OF a2(2) cap, of "(k, x)"] False step room show ?thesis
      by (simp add: kv store_all_Cons sp rs' a2)
  qed
qed

lemma decode_loop_front:
  assumes "decode_loop bs allocs buffers data_out rs = Some result" and "bs \<noteq> []"
  shows "\<exists>bs1 kv_len bs2 st val allocs1.
           read_protobuf_tag bs = Some (1, bs1) \<and>
           read_protobuf_varint bs1 = Some (kv_len, bs2) \<and> kv_len \<le> length bs2 \<and>
           parse_keyvalue (take kv_len bs2)
             \<lparr>key_found = False, value_found = False,
              key_buffer = fst buffers, value_buffer = snd buffers\<rparr> = Some st \<and>
           key_found st \<and> value_found st \<and>
           strdup allocs (value_buffer st) = (Some val, allocs1)"
proof -
  let ?init = "\<lparr>key_found = False, value_found = False,
               key_buffer = fst buffers, value_buffer = snd buffers\<rparr>"
  note d = assms(1) [unfolded decode_loop.simps [of bs]]
  from d assms(2) obtain f bs1 where tag: "read_protobuf_tag bs = Some (f, bs1)"
    by (cases "read_protobuf_tag bs") auto
  with d assms(2) have f: "f = 1" by (cases "f = 1") simp_all
  from d assms(2) tag f obtain kv_len bs2 where
    len: "read_protobuf_varint bs1 = Some (kv_len, bs2)"
    by (cases "read_protobuf_varint bs1") auto
  with d assms(2) tag f have le: "kv_len \<le> length bs2"
    by (cases "kv_len \<le> length bs2") simp_all
  from d assms(2) tag f len le obtain st where
    body: "parse_keyvalue (take kv_len bs2) ?init = Some st"
    by (cases "parse_keyvalue (take kv_len bs2) ?init") auto
  with d assms(2) tag f len le have found: "key_found st" "value_found st"
    by (cases "key_found st"; cases "value_found st"; simp)+
  obtain dup allocs1 where dup: "strdup allocs (value_buffer st) = (dup, allocs1)"
    by (cases "strdup allocs (value_buffer st)")
  with d assms(2) tag f len le body found obtain val where "dup = Some val"
    by (cases dup) simp_all
  with tag f len le body found dup show ?thesis by blast
qed


lemma strdup_Some:
  "strdup allocs buffer = (Some s, allocs') \<Longrightarrow> s = c_str buffer"
  by (auto simp: strdup_def split: prod.splits if_splits)

lemma decode_loop_sound:
  "decode_loop bs allocs buffers data_out rs = Some (data', rs') \<Longrightarrow>
   \<exists>kvs. records bs kvs \<and> (data', rs') = store_all kvs (data_out, rs) \<and>
         (length rs < resource_capacity \<longrightarrow> length rs' < resource_capacity)"
proof (induction "length bs" arbitrary: bs allocs buffers data_out rs rule: less_induct)
  case less
  show ?case
  proof (cases "bs = []")
    case True
    with less.prems have "data' = data_out" "rs' = rs" by (simp_all add: decode_loop.simps)
    with True show ?thesis
      by (intro exI [of _ "[]"]) (simp add: records.no_record store_all_def)
  next
    case False
    let ?init = "\<lparr>key_found = False, value_found = False,
                 key_buffer = fst buffers, value_buffer = snd buffers\<rparr>"
    from decode_loop_front [OF less.prems False] obtain bs1 kv_len bs2 st val allocs1 where
      tag: "read_protobuf_tag bs = Some (1, bs1)"
      and len: "read_protobuf_varint bs1 = Some (kv_len, bs2)" "kv_len \<le> length bs2"
      and body: "parse_keyvalue (take kv_len bs2) ?init = Some st" "key_found st" "value_found st"
      and dup: "strdup allocs (value_buffer st) = (Some val, allocs1)"
      by blast
    note step = decode_loop_step [OF tag len body dup, of data_out rs]
    from tag obtain t where t: "bs = t # bs1" "wire_type t = 2" "field_number t = 1"
      by (auto simp: read_tag_iff)
    from read_varint_sound [OF len(1)] obtain v where v: "bs1 = v @ bs2" "varint_of v kv_len"
      by blast
    from parse_keyvalue_sound [OF body(1)] obtain fs where
      fs: "kv_fields (take kv_len bs2) fs" "st = fold apply_field fs ?init" by blast
    from body(2,3) fs(2) have last: "last_key fs = Some (key_buffer st)"
      "last_value fs = Some (value_buffer st)"
      using fold_apply_field_key [of fs ?init] fold_apply_field_value [of fs ?init]
      by (auto split: option.splits)
    from len(2) have lb: "length (take kv_len bs2) = kv_len" by simp
    have rec: "keyvalue_record (t # v @ take kv_len bs2) (key_buffer st, value_buffer st)"
      using t(2,3) v(2) fs(1) last len(2)
      by (intro keyvalue_record.intros) (simp_all add: min_absorb2)
    have split: "bs = (t # v @ take kv_len bs2) @ drop kv_len bs2"
      by (simp add: t(1) v(1))
    have shorter: "length (drop kv_len bs2) < length bs"
      by (simp add: t(1) v(1))
    from dup have val: "val = c_str (value_buffer st)" by (rule strdup_Some)
    let ?key = "c_str (key_buffer st)"
    show ?thesis
    proof (cases "?key \<in> set identity_keys")
      case True
      obtain d1 where sp: "store_pair ?key val (data_out, rs) = (d1, rs)"
        using store_pair_identity [OF True, of val data_out rs]
        by (cases "store_pair ?key val (data_out, rs)") simp
      from less.prems step True sp have
        "decode_loop (drop kv_len bs2) allocs1 (key_buffer st, value_buffer st) d1 rs
         = Some (data', rs')" by simp
      from less.hyps [OF shorter this] obtain kvs where
        kvs: "records (drop kv_len bs2) kvs" "(data', rs') = store_all kvs (d1, rs)"
        "length rs < resource_capacity \<longrightarrow> length rs' < resource_capacity" by blast
      from records.next_record [OF rec kvs(1)] split
      have "records bs ((key_buffer st, value_buffer st) # kvs)" by simp
      with kvs(2,3) sp val show ?thesis
        by (intro exI [of _ "(key_buffer st, value_buffer st) # kvs"])
           (simp add: store_all_Cons)
    next
      case False
      from less.prems step False have ok: "fst (strdup allocs1 (key_buffer st)) \<noteq> None"
        "length rs + 2 < resource_capacity"
        by (auto split: if_splits)
      then obtain key_copy allocs2 where
        a2: "strdup allocs1 (key_buffer st) = (Some key_copy, allocs2)"
        by (cases "strdup allocs1 (key_buffer st)") auto
      then have kc: "key_copy = ?key" by (rule strdup_Some)
      from less.prems step False ok a2 have
        "decode_loop (drop kv_len bs2) allocs2 (key_buffer st, value_buffer st) data_out
           (rs @ [?key, val]) = Some (data', rs')" by (simp add: kc)
      from less.hyps [OF shorter this] ok(2) obtain kvs where
        kvs: "records (drop kv_len bs2) kvs"
        "(data', rs') = store_all kvs (data_out, rs @ [?key, val])"
        "length rs' < resource_capacity" by auto
      from records.next_record [OF rec kvs(1)] split
      have "records bs ((key_buffer st, value_buffer st) # kvs)" by simp
      with kvs(2,3) False val show ?thesis
        by (intro exI [of _ "(key_buffer st, value_buffer st) # kvs"])
           (simp add: store_all_Cons store_pair_resource)
    qed
  qed
qed

subsection \<open>The decoder accepts exactly the format\<close>

lemma store_pair_fields:
  "deployment_environment_name (fst (store_pair key val p)) \<noteq> None \<longleftrightarrow>
     deployment_environment_name (fst p) \<noteq> None \<or> key = ''deployment.environment.name''"
  "service_instance_id (fst (store_pair key val p)) \<noteq> None \<longleftrightarrow>
     service_instance_id (fst p) \<noteq> None \<or> key = ''service.instance.id''"
  "service_name (fst (store_pair key val p)) \<noteq> None \<longleftrightarrow>
     service_name (fst p) \<noteq> None \<or> key = ''service.name''"
  "service_version (fst (store_pair key val p)) \<noteq> None \<longleftrightarrow>
     service_version (fst p) \<noteq> None \<or> key = ''service.version''"
  "telemetry_sdk_language (fst (store_pair key val p)) \<noteq> None \<longleftrightarrow>
     telemetry_sdk_language (fst p) \<noteq> None \<or> key = ''telemetry.sdk.language''"
  "telemetry_sdk_version (fst (store_pair key val p)) \<noteq> None \<longleftrightarrow>
     telemetry_sdk_version (fst p) \<noteq> None \<or> key = ''telemetry.sdk.version''"
  "telemetry_sdk_name (fst (store_pair key val p)) \<noteq> None \<longleftrightarrow>
     telemetry_sdk_name (fst p) \<noteq> None \<or> key = ''telemetry.sdk.name''"
  by (cases p; simp add: store_pair_def del: not_None_eq)+

lemma store_all_sel:
  assumes "\<And>key val p. (sel (fst (store_pair key val p)) \<noteq> None)
                          = (sel (fst p) \<noteq> None \<or> key = K)"
  shows "(sel (fst (store_all kvs p)) \<noteq> None)
         = (sel (fst p) \<noteq> None \<or> K \<in> set (map (\<lambda>kv. c_str (fst kv)) kvs))"
proof (induction kvs arbitrary: p)
  case Nil
  show ?case by (simp add: store_all_def)
next
  case (Cons kv kvs)
  have "(sel (fst (store_all (kv # kvs) p)) \<noteq> None)
        = (sel (fst (store_pair (c_str (fst kv)) (c_str (snd kv)) p)) \<noteq> None \<or>
           K \<in> set (map (\<lambda>kv. c_str (fst kv)) kvs))"
    unfolding store_all_Cons by (rule Cons.IH)
  also have "\<dots> = ((sel (fst p) \<noteq> None \<or> c_str (fst kv) = K) \<or>
                     K \<in> set (map (\<lambda>kv. c_str (fst kv)) kvs))"
    unfolding assms ..
  also have "\<dots> = (sel (fst p) \<noteq> None \<or>
                     K \<in> set (map (\<lambda>kv. c_str (fst kv)) (kv # kvs)))"
    by auto
  finally show ?case .
qed

lemma store_all_fields:
  "deployment_environment_name (fst (store_all kvs p)) \<noteq> None \<longleftrightarrow>
     deployment_environment_name (fst p) \<noteq> None \<or>
     ''deployment.environment.name'' \<in> set (map (\<lambda>kv. c_str (fst kv)) kvs)"
  "service_instance_id (fst (store_all kvs p)) \<noteq> None \<longleftrightarrow>
     service_instance_id (fst p) \<noteq> None \<or>
     ''service.instance.id'' \<in> set (map (\<lambda>kv. c_str (fst kv)) kvs)"
  "service_name (fst (store_all kvs p)) \<noteq> None \<longleftrightarrow>
     service_name (fst p) \<noteq> None \<or> ''service.name'' \<in> set (map (\<lambda>kv. c_str (fst kv)) kvs)"
  "service_version (fst (store_all kvs p)) \<noteq> None \<longleftrightarrow>
     service_version (fst p) \<noteq> None \<or>
     ''service.version'' \<in> set (map (\<lambda>kv. c_str (fst kv)) kvs)"
  "telemetry_sdk_language (fst (store_all kvs p)) \<noteq> None \<longleftrightarrow>
     telemetry_sdk_language (fst p) \<noteq> None \<or>
     ''telemetry.sdk.language'' \<in> set (map (\<lambda>kv. c_str (fst kv)) kvs)"
  "telemetry_sdk_version (fst (store_all kvs p)) \<noteq> None \<longleftrightarrow>
     telemetry_sdk_version (fst p) \<noteq> None \<or>
     ''telemetry.sdk.version'' \<in> set (map (\<lambda>kv. c_str (fst kv)) kvs)"
  "telemetry_sdk_name (fst (store_all kvs p)) \<noteq> None \<longleftrightarrow>
     telemetry_sdk_name (fst p) \<noteq> None \<or>
     ''telemetry.sdk.name'' \<in> set (map (\<lambda>kv. c_str (fst kv)) kvs)"
  by (rule store_all_sel, rule store_pair_fields)+

lemma identity_fields_set_store_all:
  "identity_fields_set (fst (store_all kvs (empty_data, []))) \<longleftrightarrow>
   (\<forall>k\<in>set identity_keys. k \<in> set (map (\<lambda>kv. c_str (fst kv)) kvs))"
  by (simp add: identity_fields_set_def store_all_fields identity_keys_def empty_data_def
      del: not_None_eq set_map)

lemma decode_payload_unfold:
  assumes "list_all (\<lambda>ok. ok) allocs"
  shows "\<exists>allocs1. list_all (\<lambda>ok. ok) allocs1 \<and>
           otel_process_ctx_decode_payload allocs buf buf_size key_buf value_buf =
           (case decode_loop (take (unat buf_size) buf) allocs1 (key_buf, value_buf)
                   empty_data [] of
              None \<Rightarrow> None
            | Some (data_out, rs) \<Rightarrow>
                if identity_fields_set data_out then Some (data_out\<lparr>resources := Some rs\<rparr>)
                else None)"
proof -
  from next_alloc_all [OF assms] obtain allocs1 where
    "next_alloc allocs = (True, allocs1)" "list_all (\<lambda>ok. ok) allocs1" by blast
  then show ?thesis
    by (intro exI [of _ allocs1])
       (simp add: otel_process_ctx_decode_payload_def identity_fields_set_def
          del: not_None_eq split: option.splits)
qed

text \<open>
  What the decoder accepts. When no allocation of the decoder fails, the decoder returns
  failure if and only if the payload (its first \<^verbatim>\<open>payload_size\<close> bytes) is not of the
  format defined above as \<open>accepted_payload\<close>.
\<close>

theorem decode_rejects_iff_not_accepted:
  assumes "list_all (\<lambda>ok. ok) allocs"
  shows "otel_process_ctx_decode_payload allocs buf buf_size key_buf value_buf = None
         \<longleftrightarrow> \<not> accepted_payload (take (unat buf_size) buf)"
proof -
  let ?bs = "take (unat buf_size) buf"
  from decode_payload_unfold [OF assms, of buf buf_size key_buf value_buf]
  obtain allocs1 where a1: "list_all (\<lambda>ok. ok) allocs1"
    and dec: "otel_process_ctx_decode_payload allocs buf buf_size key_buf value_buf =
           (case decode_loop ?bs allocs1 (key_buf, value_buf) empty_data [] of
              None \<Rightarrow> None
            | Some (data_out, rs) \<Rightarrow>
                if identity_fields_set data_out then Some (data_out\<lparr>resources := Some rs\<rparr>)
                else None)"
    by blast
  have "accepted_payload ?bs" if
    ok: "otel_process_ctx_decode_payload allocs buf buf_size key_buf value_buf \<noteq> None"
  proof -
    from ok dec obtain data_out rs where
      loop: "decode_loop ?bs allocs1 (key_buf, value_buf) empty_data [] = Some (data_out, rs)"
      and set: "identity_fields_set data_out"
      by (auto split: option.splits if_splits)
    from decode_loop_sound [OF loop] obtain kvs where kvs: "records ?bs kvs"
      "(data_out, rs) = store_all kvs (empty_data, [])" "length rs < resource_capacity"
      by (auto simp: resource_capacity_def)
    from kvs(2) have d: "data_out = fst (store_all kvs (empty_data, []))"
      and r: "rs = snd (store_all kvs (empty_data, []))"
      by (metis fst_conv, metis snd_conv)
    from set d have keys: "\<forall>k\<in>set identity_keys. k \<in> set (map (\<lambda>kv. c_str (fst kv)) kvs)"
      by (simp add: identity_fields_set_store_all del: set_map)
    from kvs(3) r have "length (filter (\<lambda>kv. c_str (fst kv) \<notin> set identity_keys) kvs) \<le> 100"
      by (simp add: length_store_all resource_capacity_def)
    with kvs(1) keys show ?thesis unfolding accepted_payload_def by blast
  qed
  moreover have
    "otel_process_ctx_decode_payload allocs buf buf_size key_buf value_buf \<noteq> None"
    if acc: "accepted_payload ?bs"
  proof -
    from acc obtain kvs where kvs: "records ?bs kvs"
      "\<forall>k\<in>set identity_keys. k \<in> set (map (\<lambda>kv. c_str (fst kv)) kvs)"
      "length (filter (\<lambda>kv. c_str (fst kv) \<notin> set identity_keys) kvs) \<le> 100"
      unfolding accepted_payload_def by blast
    from kvs(3) have cap: "length (snd (store_all kvs (empty_data, []))) < resource_capacity"
      by (simp add: length_store_all resource_capacity_def)
    from decode_loop_complete [OF kvs(1) a1 cap]
    have loop: "decode_loop ?bs allocs1 (key_buf, value_buf) empty_data []
                = Some (store_all kvs (empty_data, []))" .
    from kvs(2) have "identity_fields_set (fst (store_all kvs (empty_data, [])))"
      by (simp add: identity_fields_set_store_all del: set_map)
    with loop dec show ?thesis
      by (cases "store_all kvs (empty_data, [])") simp
  qed
  ultimately show ?thesis by blast
qed


lemma example_strings_ok: "list_all cstring_ok (data_strings example_data)"
  by (simp add: data_strings_def example_data_def example_resources_def identity_pairs_def
      cstring_ok_def NUL_def KEY_VALUE_LIMIT_def)

lemma example_resource_list: "resource_list example_data = example_resources"
  by (simp add: resource_list_def example_data_def)

lemma example_resource_keys:
  "list_all (\<lambda>key. key \<notin> set identity_keys) (resource_keys example_resources)"
  by (simp add: example_resources_def identity_keys_def)

lemma length_example_payload: "length (payload_bytes example_data) = 336"
  using encode_total_size_length [OF example_total_size] by simp

lemma decode_example:
  "otel_process_ctx_decode_payload [] (payload_bytes example_data) 336 key_buf value_buf
   = Some example_data"
proof -
  have c: "complete_data example_data" by (rule complete_example_data)
  from c have ev1: "even (length (identity_strings example_data))"
    using identity_pairs_complete by blast
  have ev2: "even (length example_resources)" by (simp add: example_resources_def)
  have stored: "store_pairs (identity_strings example_data @ resource_list example_data)
                  (empty_data, [])
                = (example_data\<lparr>resources := None\<rparr>, example_resources)"
    using store_pairs_resources [OF ev2 example_resource_keys,
        of "example_data\<lparr>resources := None\<rparr>" "[]"]
    by (simp add: store_pairs_append [OF ev1] store_pairs_identity [OF c] example_resource_list)
  from example_strings_ok have strings: "\<forall>s\<in>set (data_strings example_data). cstring_ok s"
    by (simp add: list_all_iff)
  have cap: "length example_resources < resource_capacity"
    "length (resource_list example_data) \<le> 200"
    by (simp_all add: example_resources_def resource_capacity_def example_resource_list)
  have full: "example_data\<lparr>resources := Some example_resources\<rparr> = example_data"
    by (simp add: example_data_def)
  from c have fields: "deployment_environment_name example_data \<noteq> None"
    "service_instance_id example_data \<noteq> None" "service_name example_data \<noteq> None"
    "service_version example_data \<noteq> None" "telemetry_sdk_language example_data \<noteq> None"
    "telemetry_sdk_version example_data \<noteq> None" "telemetry_sdk_name example_data \<noteq> None"
    by (simp_all add: complete_data_def)
  show ?thesis
    using decode_encoded(2) [OF c strings _ stored cap, of "[]" key_buf value_buf] fields
    by (simp add: length_example_payload full del: not_None_eq)
qed




theorem decode_rejects_iff_not_accepted_witness:
  "list_all (\<lambda>ok. ok) [] \<and>
   otel_process_ctx_decode_payload [] (payload_bytes example_data) 336
     (replicate 4097 NUL) (replicate 4097 NUL) = Some example_data \<and>
   accepted_payload (take (unat (336 :: 32 word)) (payload_bytes example_data)) \<and>
   otel_process_ctx_decode_payload [] [CHR 0x08] 1 (replicate 4097 NUL) (replicate 4097 NUL)
     = None \<and>
   \<not> accepted_payload (take (unat (1 :: 32 word)) [CHR 0x08])"
proof -
  have a: "list_all (\<lambda>ok. ok) []" by simp
  have r: "otel_process_ctx_decode_payload [] [CHR 0x08] 1 (replicate 4097 NUL)
             (replicate 4097 NUL) = None"
    by (simp add: otel_process_ctx_decode_payload_def decode_loop.simps read_protobuf_tag_def)
  show ?thesis
    using decode_rejects_iff_not_accepted [OF a, of "payload_bytes example_data" 336
        "replicate 4097 NUL" "replicate 4097 NUL"]
      decode_rejects_iff_not_accepted [OF a, of "[CHR 0x08]" 1
        "replicate 4097 NUL" "replicate 4097 NUL"]
      decode_example [of "replicate 4097 NUL" "replicate 4097 NUL"] r
    by simp
qed




section \<open>Properties of the publisher\<close>

subsection \<open>Dropping, and a failed update\<close>

text \<open>
  Claim C8. From the all-zero publisher state \<^verbatim>\<open>otel_process_ctx_drop_current\<close> returns
  true and leaves the process as it was, so a second call returns true again. In every
  state it returns false exactly when the context was published by this process and
  \<^verbatim>\<open>munmap\<close> failed; in every state the singleton is zeroed afterwards and the heap is
  the old heap with the snapshot's payload buffer freed.
\<close>

theorem drop_current_idempotent_and_unconditional:
  "(published_state p = initial_state \<longrightarrow>
      otel_process_ctx_drop_current env p = (True, p) \<and>
      otel_process_ctx_drop_current env' (snd (otel_process_ctx_drop_current env p)) = (True, p)) \<and>
   (fst (otel_process_ctx_drop_current env p) = False \<longleftrightarrow>
      ctx_is_published p (published_state p) \<and> munmap_ret env \<noteq> 0) \<and>
   published_state (snd (otel_process_ctx_drop_current env p)) = initial_state \<and>
   heap (snd (otel_process_ctx_drop_current env p)) = heap (free (payload (published_state p)) p)"
proof (intro conjI impI)
  assume init: "published_state p = initial_state"
  then have "\<not> ctx_is_published q (published_state p)" for q
    by (simp add: ctx_is_published_def initial_state_def)
  with init show "otel_process_ctx_drop_current env p = (True, p)"
    by (cases p) (simp add: otel_process_ctx_drop_current_def initial_state_def free_def
        ctx_is_published_def)
  then show "otel_process_ctx_drop_current env'
                (snd (otel_process_ctx_drop_current env p)) = (True, p)"
    using init
    by (cases p) (simp add: otel_process_ctx_drop_current_def initial_state_def free_def
        ctx_is_published_def)
next
  show "fst (otel_process_ctx_drop_current env p) = False \<longleftrightarrow>
        ctx_is_published p (published_state p) \<and> munmap_ret env \<noteq> 0"
    by (simp add: otel_process_ctx_drop_current_def ctx_is_published_def Let_def
        split: prod.splits)
next
  show "published_state (snd (otel_process_ctx_drop_current env p)) = initial_state"
    by (simp add: otel_process_ctx_drop_current_def Let_def initial_state_def free_def
        split: prod.splits)
next
  show "heap (snd (otel_process_ctx_drop_current env p))
        = heap (free (payload (published_state p)) p)"
    by (simp add: otel_process_ctx_drop_current_def Let_def free_def split: prod.splits)
qed

theorem drop_current_idempotent_and_unconditional_witness:
  "published_state unpublished_process = initial_state \<and>
   otel_process_ctx_drop_current good_env unpublished_process = (True, unpublished_process) \<and>
   otel_process_ctx_drop_current good_env
     (snd (otel_process_ctx_drop_current good_env unpublished_process))
   = (True, unpublished_process)"
  using drop_current_idempotent_and_unconditional [of unpublished_process good_env good_env]
  by (simp add: unpublished_process_def)

text \<open>
  Claim C4. If encoding the new payload fails (a length limit is exceeded or the
  allocation fails), \<^verbatim>\<open>otel_process_ctx_update\<close> returns a failure and the process state is
  the one before the call: the header with its signature, version, timestamp, payload
  length and payload pointer, the singleton and the heap, where the old payload stays
  live. For a published context the failure is the encoder's.
\<close>

theorem update_encode_failure_leaves_state:
  assumes "otel_process_ctx_encode_protobuf_payload (calloc_ptr env \<noteq> NULL) d = Some (Inl e)"
  shows "\<exists>r. otel_process_ctx_update env published_at_ns (Some d) p = Some (r, p) \<and>
             \<not> success r \<and>
             (ctx_is_published p (published_state p) \<longrightarrow> r = failure e)"
  using assms
  by (simp add: otel_process_ctx_update_def encode_payload_def failure_def)


subsection \<open>The steps of an update\<close>

lemma run_append: "run (xs @ ys) p = Option.bind (run xs p) (run ys)"
proof (induction xs arbitrary: p)
  case Nil
  show ?case by simp
next
  case (Cons a xs)
  then show ?case by (cases "perform a p") simp_all
qed

lemma run_snoc: "run xs p = Some q \<Longrightarrow> perform a q = Some q' \<Longrightarrow> run (xs @ [a]) p = Some q'"
  by (simp add: run_append)

lemma update_steps_prefix:
  assumes "update_step\<^sup>*\<^sup>* (prog, p) (rest, q)"
  shows "\<exists>k\<le>length prog. rest = drop k prog \<and> run (take k prog) p = Some q"
  using assms
proof (induction rule: rtranclp_induct2)
  case refl
  show ?case by (rule exI [of _ 0]) simp
next
  case (step rest q rest' q')
  from step.IH obtain k where k: "k \<le> length prog" "rest = drop k prog"
    "run (take k prog) p = Some q" by blast
  from step.hyps(2) obtain a where a: "rest = a # rest'" "perform a q = Some q'"
    by (auto elim: update_step.cases)
  from k(2) a(1) have lt: "k < length prog" by (cases "k < length prog") simp_all
  from lt have "drop k prog = prog ! k # drop (Suc k) prog"
    by (simp add: Cons_nth_drop_Suc)
  with k(2) a(1) have nth: "prog ! k = a" and dr: "drop (Suc k) prog = rest'"
    by simp_all
  have "take (Suc k) prog = take k prog @ [a]"
    using lt nth by (simp add: take_Suc_conv_app_nth)
  with k(3) a(2) have "run (take (Suc k) prog) p = Some q'" by (simp add: run_snoc)
  with lt dr show ?case by (intro exI [of _ "Suc k"]) simp
qed

lemma update_steps_run:
  "run prog p = Some q \<Longrightarrow> update_step\<^sup>*\<^sup>* (prog, p) ([], q)"
proof (induction prog arbitrary: p)
  case Nil
  then show ?case by simp
next
  case (Cons a prog)
  then obtain p' where p': "perform a p = Some p'" "run prog p' = Some q"
    by (auto split: Option.bind_splits)
  from p'(1) have "update_step (a # prog, p) (prog, p')" by (rule update_step.step)
  then show ?case using Cons.IH [OF p'(2)] by (rule converse_rtranclp_into_rtranclp)
qed

lemma le_9_cases:
  "k \<le> 9 \<Longrightarrow> k = 0 \<or> k = 1 \<or> k = 2 \<or> k = 3 \<or> k = 4 \<or> k = 5 \<or> k = 6 \<or> k = 7 \<or> k = 8 \<or> k = (9::nat)"
  by arith

lemma store_mapping_at:
  "mappings p (mapping (published_state p)) = Some m \<Longrightarrow>
   store_mapping f p = Some (p\<lparr>mappings := (mappings p)(mapping (published_state p) \<mapsto> f m)\<rparr>)"
  by (simp add: store_mapping_def)

lemma run_update_prefix:
  assumes h: "mappings p (mapping (published_state p)) = Some h" and k: "k \<le> 9"
  shows "run (take k (update_program published_at_ns new_payload payload_size)) p
         = Some (process_after k published_at_ns new_payload payload_size h p)"
proof -
  have id: "p\<lparr>mappings := (mappings p)(mapping (published_state p) \<mapsto> h)\<rparr> = p"
    using h by (cases p) (auto simp: fun_upd_idem)
  from le_9_cases [OF k] show ?thesis
    by (elim disjE)
       (simp_all add: update_program_def process_after_def header_after_def store_mapping_def
          h id free_def Let_def)
qed

lemma update_steps_take:
  "run (take k prog) p = Some q \<Longrightarrow> update_step\<^sup>*\<^sup>* (prog, p) (drop k prog, q)"
proof (induction k arbitrary: q)
  case 0
  then show ?case by simp
next
  case (Suc k)
  show ?case
  proof (cases "k < length prog")
    case False
    with Suc show ?thesis by simp
  next
    case True
    then have tk: "take (Suc k) prog = take k prog @ [prog ! k]"
      by (simp add: take_Suc_conv_app_nth)
    with Suc.prems obtain q0 where q0: "run (take k prog) p = Some q0" "perform (prog ! k) q0 = Some q"
      by (auto simp: run_append split: Option.bind_splits)
    from True have "drop k prog = prog ! k # drop (Suc k) prog"
      by (simp add: Cons_nth_drop_Suc)
    with q0(2) have "update_step (drop k prog, q0) (drop (Suc k) prog, q)"
      by (simp add: update_step.step)
    with Suc.IH [OF q0(1)] show ?thesis by (rule rtranclp.rtrancl_into_rtrancl)
  qed
qed

lemma length_update_program [simp]: "length (update_program t a n) = 9"
  by (simp add: update_program_def)

lemma update_reachable:
  assumes "mappings p (mapping (published_state p)) = Some h"
    and "update_step\<^sup>*\<^sup>* (update_program published_at_ns new_payload payload_size, p) (rest, q)"
  shows "\<exists>k\<le>9. length rest = 9 - k \<and>
           q = process_after k published_at_ns new_payload payload_size h p"
proof -
  from update_steps_prefix [OF assms(2)] obtain k where k: "k \<le> 9"
    "rest = drop k (update_program published_at_ns new_payload payload_size)"
    "run (take k (update_program published_at_ns new_payload payload_size)) p = Some q"
    by auto
  with run_update_prefix [OF assms(1) k(1), of published_at_ns new_payload payload_size]
  show ?thesis by (intro exI [of _ k]) simp
qed

lemma mapping_process_after:
  "mapping (published_state (process_after k t a n h p)) = mapping (published_state p)"
  by (simp add: process_after_def Let_def free_def)

lemma mappings_process_after:
  "mappings (process_after k t a n h p) (mapping (published_state p)) = Some (header_after k t a n h)"
  by (simp add: process_after_def Let_def free_def)

lemma run_update_whole:
  assumes "mappings p (mapping (published_state p)) = Some h"
  shows "run (update_program t a n) p = Some (process_after 9 t a n h p)"
  using run_update_prefix [OF assms, of 9 t a n] by simp

text \<open>
  The header in every configuration of the statements of the update, started in a
  process whose mapping holds the header \<open>h\<close>.
\<close>

lemma update_configurations:
  assumes "mappings p (mapping (published_state p)) = Some h"
    and "update_step\<^sup>*\<^sup>* (update_program published_at_ns new_payload payload_size, p) (rest, q)"
  shows "\<exists>h'. mappings q (mapping (published_state q)) = Some h' \<and>
           mapping (published_state q) = mapping (published_state p) \<and>
           otel_process_ctx_signature h' = otel_process_ctx_signature h \<and>
           otel_process_ctx_version h' = otel_process_ctx_version h \<and>
           (length rest = 9 \<longrightarrow> h' = h) \<and>
           (7 \<le> length rest \<and> length rest \<le> 8 \<longrightarrow>
              h' = h\<lparr>otel_process_ctx_published_at_ns := 0\<rparr>) \<and>
           (length rest = 6 \<longrightarrow>
              h' = h\<lparr>otel_process_ctx_published_at_ns := 0,
                     otel_process_payload_size := payload_size\<rparr>) \<and>
           (4 \<le> length rest \<and> length rest \<le> 5 \<longrightarrow>
              h' = h\<lparr>otel_process_ctx_published_at_ns := 0,
                     otel_process_payload_size := payload_size,
                     otel_process_payload := new_payload\<rparr>) \<and>
           (length rest \<le> 3 \<longrightarrow>
              h' = h\<lparr>otel_process_payload_size := payload_size,
                     otel_process_payload := new_payload,
                     otel_process_ctx_published_at_ns := published_at_ns\<rparr>) \<and>
           (otel_process_ctx_published_at_ns h' \<noteq> 0 \<longrightarrow>
              otel_process_payload_size h' = otel_process_payload_size h \<and>
              otel_process_payload h' = otel_process_payload h \<or>
              otel_process_payload_size h' = payload_size \<and>
              otel_process_payload h' = new_payload)"
proof -
  from update_reachable [OF assms] obtain k where k: "k \<le> 9" "length rest = 9 - k"
    and q: "q = process_after k published_at_ns new_payload payload_size h p"
    by blast
  let ?h = "header_after k published_at_ns new_payload payload_size h"
  have m: "mappings q (mapping (published_state q)) = Some ?h"
    and a: "mapping (published_state q) = mapping (published_state p)"
    by (simp_all add: q mapping_process_after mappings_process_after)
  have "otel_process_ctx_signature ?h = otel_process_ctx_signature h"
    "otel_process_ctx_version ?h = otel_process_ctx_version h"
    by (simp_all add: header_after_def)
  moreover have "length rest = 9 \<longrightarrow> ?h = h"
    using k by (simp add: header_after_def)
  moreover have "7 \<le> length rest \<and> length rest \<le> 8 \<longrightarrow>
              ?h = h\<lparr>otel_process_ctx_published_at_ns := 0\<rparr>"
    using k by (auto simp: header_after_def)
  moreover have "length rest = 6 \<longrightarrow>
              ?h = h\<lparr>otel_process_ctx_published_at_ns := 0,
                     otel_process_payload_size := payload_size\<rparr>"
    using k by (auto simp: header_after_def)
  moreover have "4 \<le> length rest \<and> length rest \<le> 5 \<longrightarrow>
              ?h = h\<lparr>otel_process_ctx_published_at_ns := 0,
                     otel_process_payload_size := payload_size,
                     otel_process_payload := new_payload\<rparr>"
    using k by (auto simp: header_after_def)
  moreover have "length rest \<le> 3 \<longrightarrow>
              ?h = h\<lparr>otel_process_payload_size := payload_size,
                     otel_process_payload := new_payload,
                     otel_process_ctx_published_at_ns := published_at_ns\<rparr>"
    using k by (auto simp: header_after_def)
  moreover have "otel_process_ctx_published_at_ns ?h \<noteq> 0 \<longrightarrow>
              otel_process_payload_size ?h = otel_process_payload_size h \<and>
              otel_process_payload ?h = otel_process_payload h \<or>
              otel_process_payload_size ?h = payload_size \<and>
              otel_process_payload ?h = new_payload"
    by (simp add: header_after_def)
  ultimately show ?thesis using m a by blast
qed

text \<open>
  Claim C1. When a context is published by the current process, its header \<open>h\<close> mapped,
  and the new payload has been encoded, \<^verbatim>\<open>otel_process_ctx_update\<close> succeeds and its
  final state is the end of the step relation over its statements. In every
  configuration of these steps the header is still mapped at the same address with its
  signature and version; before the first statement it is \<open>h\<close>; after the store of 0
  into the timestamp, and after the fence that follows, only the timestamp has changed
  and is 0; the new length and then the new pointer are stored next, the timestamp still
  being 0 after the second fence; from the store of the new timestamp on, the header
  holds the new timestamp, length and pointer. Hence a header with a nonzero timestamp
  holds either the old length and pointer or the new length and pointer, and every
  intermediate configuration shows timestamp 0.
\<close>

theorem update_timestamp_protocol:
  assumes published: "ctx_is_published p (published_state p)"
    and header: "mappings p (mapping (published_state p)) = Some h"
    and enc: "encode_payload env d p = Some (Inr (new_payload, payload_size), p1)"
  shows "\<exists>q. otel_process_ctx_update env published_at_ns (Some d) p = Some (succeeded, q) \<and>
           update_step\<^sup>*\<^sup>*
             (update_program published_at_ns new_payload payload_size, p1) ([], q) \<and>
           (\<forall>rest q'.
              update_step\<^sup>*\<^sup>*
                (update_program published_at_ns new_payload payload_size, p1) (rest, q') \<longrightarrow>
              (\<exists>h'. mappings q' (mapping (published_state q')) = Some h' \<and>
                 mapping (published_state q') = mapping (published_state p) \<and>
                 otel_process_ctx_signature h' = otel_process_ctx_signature h \<and>
                 otel_process_ctx_version h' = otel_process_ctx_version h \<and>
                 (length rest = 9 \<longrightarrow> h' = h) \<and>
                 (7 \<le> length rest \<and> length rest \<le> 8 \<longrightarrow>
                    h' = h\<lparr>otel_process_ctx_published_at_ns := 0\<rparr>) \<and>
                 (length rest = 6 \<longrightarrow>
                    h' = h\<lparr>otel_process_ctx_published_at_ns := 0,
                           otel_process_payload_size := payload_size\<rparr>) \<and>
                 (4 \<le> length rest \<and> length rest \<le> 5 \<longrightarrow>
                    h' = h\<lparr>otel_process_ctx_published_at_ns := 0,
                           otel_process_payload_size := payload_size,
                           otel_process_payload := new_payload\<rparr>) \<and>
                 (length rest \<le> 3 \<longrightarrow>
                    h' = h\<lparr>otel_process_payload_size := payload_size,
                           otel_process_payload := new_payload,
                           otel_process_ctx_published_at_ns := published_at_ns\<rparr>) \<and>
                 (otel_process_ctx_published_at_ns h' \<noteq> 0 \<longrightarrow>
                    otel_process_payload_size h' = otel_process_payload_size h \<and>
                    otel_process_payload h' = otel_process_payload h \<or>
                    otel_process_payload_size h' = payload_size \<and>
                    otel_process_payload h' = new_payload)))"
proof -
  let ?prog = "update_program published_at_ns new_payload payload_size"
  from enc have st: "published_state p1 = published_state p" and mp: "mappings p1 = mappings p"
    by (auto simp: encode_payload_def split: option.splits sum.splits)
  from header st mp have h1: "mappings p1 (mapping (published_state p1)) = Some h" by simp
  let ?q = "process_after 9 published_at_ns new_payload payload_size h p1"
  have run: "run ?prog p1 = Some ?q" using h1 by (rule run_update_whole)
  from published enc run
  have upd: "otel_process_ctx_update env published_at_ns (Some d) p = Some (succeeded, ?q)"
    by (simp add: otel_process_ctx_update_def)
  have steps: "update_step\<^sup>*\<^sup>* (?prog, p1) ([], ?q)" using run by (rule update_steps_run)
  have inter: "\<exists>h'. mappings q' (mapping (published_state q')) = Some h' \<and>
                 mapping (published_state q') = mapping (published_state p) \<and>
                 otel_process_ctx_signature h' = otel_process_ctx_signature h \<and>
                 otel_process_ctx_version h' = otel_process_ctx_version h \<and>
                 (length rest = 9 \<longrightarrow> h' = h) \<and>
                 (7 \<le> length rest \<and> length rest \<le> 8 \<longrightarrow>
                    h' = h\<lparr>otel_process_ctx_published_at_ns := 0\<rparr>) \<and>
                 (length rest = 6 \<longrightarrow>
                    h' = h\<lparr>otel_process_ctx_published_at_ns := 0,
                           otel_process_payload_size := payload_size\<rparr>) \<and>
                 (4 \<le> length rest \<and> length rest \<le> 5 \<longrightarrow>
                    h' = h\<lparr>otel_process_ctx_published_at_ns := 0,
                           otel_process_payload_size := payload_size,
                           otel_process_payload := new_payload\<rparr>) \<and>
                 (length rest \<le> 3 \<longrightarrow>
                    h' = h\<lparr>otel_process_payload_size := payload_size,
                           otel_process_payload := new_payload,
                           otel_process_ctx_published_at_ns := published_at_ns\<rparr>) \<and>
                 (otel_process_ctx_published_at_ns h' \<noteq> 0 \<longrightarrow>
                    otel_process_payload_size h' = otel_process_payload_size h \<and>
                    otel_process_payload h' = otel_process_payload h \<or>
                    otel_process_payload_size h' = payload_size \<and>
                    otel_process_payload h' = new_payload)"
    if "update_step\<^sup>*\<^sup>* (?prog, p1) (rest, q')" for rest q'
    using update_configurations [OF h1 that] by (simp only: st)
  from upd steps inter show ?thesis by blast
qed

subsection \<open>Publishing on a published context\<close>

lemma time_now_ns_good_env: "time_now_ns good_env = 1700000000000000005"
  by (simp add: time_now_ns_def good_env_def)

lemma time_now_ns_update_env: "time_now_ns update_env = 1700000005000000007"
  by (simp add: time_now_ns_def update_env_def good_env_def)

lemma publish_example:
  "otel_process_ctx_publish good_env (Some example_data) unpublished_process
   = Some (succeeded, published_process)"
proof -
  have d: "otel_process_ctx_drop_current good_env unpublished_process = (True, unpublished_process)"
    by (simp add: otel_process_ctx_drop_current_def unpublished_process_def initial_state_def
        ctx_is_published_def free_def NULL_def)
  have e: "encode_payload good_env example_data unpublished_process
           = Some (Inr (4096, 336),
                   unpublished_process\<lparr>heap := [4096 \<mapsto> payload_bytes example_data]\<rparr>)"
    by (simp add: encode_payload_def good_env_def NULL_def encode_example unpublished_process_def)
  have c: "\<not> ctx_is_published unpublished_process (published_state unpublished_process)"
    by (simp add: ctx_is_published_def unpublished_process_def initial_state_def NULL_def)
  show ?thesis
    by (simp add: otel_process_ctx_publish_def time_now_ns_good_env c d e Let_def)
       (simp add: publish_create_mapping_def publish_populate_def mmap_def store_mapping_def
          good_env_def unpublished_process_def initial_state_def MAP_FAILED_def Let_def
          published_process_def example_header_def OTEL_CTX_SIGNATURE_def succeeded_def)
qed

lemma published_process_header:
  "mappings published_process (mapping (published_state published_process)) = Some example_header"
  by (simp add: published_process_def)

lemma publish_delegates:
  assumes "ctx_is_published p (published_state p)" and "time_now_ns env \<noteq> 0"
  shows "otel_process_ctx_publish env (Some b) p
         = otel_process_ctx_update env (time_now_ns env) (Some b) p"
  using assms by (simp add: otel_process_ctx_publish_def Let_def)

lemma reader_view_process_after:
  "reader_view (process_after k t a n h p) (mapping (published_state p))
   = Some (header_after k t a n h,
           (if k \<le> 7 then heap p else heap (free (payload (published_state p)) p))
             (otel_process_payload (header_after k t a n h)))"
  by (simp add: reader_view_def process_after_def Let_def free_def)

text \<open>
  Claim C2 (as amended). In a state where a context is published by the current
  process (its header \<open>h\<close> mapped, pointing to the live payload of the singleton), with the clock available,
  \<^verbatim>\<open>calloc\<close> returning a fresh block and \<open>b\<close> encodable, \<^verbatim>\<open>publish(b)\<close> is
  \<^verbatim>\<open>update(b)\<close> with the clock reading: it succeeds, its final state is the end of the
  update's step relation, and there a reader sees the header with the new timestamp,
  length and pointer, the pointer leading to the encoding of \<open>b\<close>. In every
  configuration of the steps a reader sees the old header with the old payload, the new
  header with the encoding of \<open>b\<close>, or a header whose timestamp is 0.
\<close>

theorem publish_on_published_is_update:
  assumes published: "ctx_is_published p (published_state p)"
    and clock: "time_now_ns env \<noteq> 0"
    and header: "mappings p (mapping (published_state p)) = Some h"
    and old: "otel_process_payload h = payload (published_state p)"
             "heap p (payload (published_state p)) = Some old_bytes"
    and new: "calloc_ptr env \<noteq> NULL" "calloc_ptr env \<notin> dom (heap p)"
    and enc: "otel_process_ctx_encode_protobuf_payload True b = Some (Inr (encoded, out_size))"
  shows "otel_process_ctx_publish env (Some b) p
           = otel_process_ctx_update env (time_now_ns env) (Some b) p \<and>
         (\<exists>p1 q. encode_payload env b p = Some (Inr (calloc_ptr env, out_size), p1) \<and>
            otel_process_ctx_publish env (Some b) p = Some (succeeded, q) \<and>
            update_step\<^sup>*\<^sup>*
              (update_program (time_now_ns env) (calloc_ptr env) out_size, p1) ([], q) \<and>
            reader_view q (mapping (published_state p))
              = Some (h\<lparr>otel_process_payload_size := out_size,
                        otel_process_payload := calloc_ptr env,
                        otel_process_ctx_published_at_ns := time_now_ns env\<rparr>, Some encoded) \<and>
            published_state q = (published_state p)\<lparr>payload := calloc_ptr env\<rparr> \<and>
            (\<forall>rest q'.
               update_step\<^sup>*\<^sup>*
                 (update_program (time_now_ns env) (calloc_ptr env) out_size, p1) (rest, q') \<longrightarrow>
               reader_view q' (mapping (published_state p)) = Some (h, Some old_bytes) \<or>
               reader_view q' (mapping (published_state p))
                 = Some (h\<lparr>otel_process_payload_size := out_size,
                           otel_process_payload := calloc_ptr env,
                           otel_process_ctx_published_at_ns := time_now_ns env\<rparr>, Some encoded) \<or>
               (\<exists>m bytes. reader_view q' (mapping (published_state p)) = Some (m, bytes) \<and>
                          otel_process_ctx_published_at_ns m = 0)))"
proof -
  let ?t = "time_now_ns env" and ?a = "calloc_ptr env"
  let ?p1 = "p\<lparr>heap := (heap p)(?a \<mapsto> encoded)\<rparr>"
  let ?prog = "update_program ?t ?a out_size"
  let ?q = "process_after 9 ?t ?a out_size h ?p1"
  let ?hb = "h\<lparr>otel_process_payload_size := out_size, otel_process_payload := ?a,
                otel_process_ctx_published_at_ns := ?t\<rparr>"
  have deleg: "otel_process_ctx_publish env (Some b) p
               = otel_process_ctx_update env ?t (Some b) p"
    using published clock by (rule publish_delegates)
  from new(1) enc have e: "encode_payload env b p = Some (Inr (?a, out_size), ?p1)"
    by (simp add: encode_payload_def)
  have h1: "mappings ?p1 (mapping (published_state ?p1)) = Some h"
    using header by simp
  have run: "run ?prog ?p1 = Some ?q" using h1 by (rule run_update_whole)
  from published e run have upd: "otel_process_ctx_update env ?t (Some b) p = Some (succeeded, ?q)"
    by (simp add: otel_process_ctx_update_def)
  from new(2) old(2) have ne: "payload (published_state p) \<noteq> ?a" by auto
  have steps: "update_step\<^sup>*\<^sup>* (?prog, ?p1) ([], ?q)" using run by (rule update_steps_run)
  have final: "reader_view ?q (mapping (published_state p)) = Some (?hb, Some encoded)"
    using reader_view_process_after [of 9 ?t ?a out_size h ?p1] ne
    by (simp add: header_after_def free_def)
  have st: "published_state ?q = (published_state p)\<lparr>payload := ?a\<rparr>"
    by (simp add: process_after_def Let_def free_def)
  have inter: "reader_view q' (mapping (published_state p)) = Some (h, Some old_bytes) \<or>
               reader_view q' (mapping (published_state p)) = Some (?hb, Some encoded) \<or>
               (\<exists>m bytes. reader_view q' (mapping (published_state p)) = Some (m, bytes) \<and>
                          otel_process_ctx_published_at_ns m = 0)"
    if "update_step\<^sup>*\<^sup>* (?prog, ?p1) (rest, q')" for rest q'
  proof -
    from update_reachable [OF h1 that] obtain k where k: "k \<le> 9"
      and q': "q' = process_after k ?t ?a out_size h ?p1" by blast
    have rv: "reader_view q' (mapping (published_state p))
       = Some (header_after k ?t ?a out_size h,
           (if k \<le> 7 then heap ?p1 else heap (free (payload (published_state p)) ?p1))
             (otel_process_payload (header_after k ?t ?a out_size h)))"
      using reader_view_process_after [of k ?t ?a out_size h ?p1] by (simp add: q')
    consider "k = 0" | "1 \<le> k \<and> k \<le> 5" | "6 \<le> k" using k by arith
    then show ?thesis
    proof cases
      case 1
      then show ?thesis using rv old ne by (simp add: header_after_def)
    next
      case 2
      then have "otel_process_ctx_published_at_ns (header_after k ?t ?a out_size h) = 0"
        by (simp add: header_after_def)
      with rv show ?thesis by blast
    next
      case 3
      then have "header_after k ?t ?a out_size h = ?hb" by (simp add: header_after_def)
      with rv ne show ?thesis by (simp add: free_def)
    qed
  qed
  show ?thesis
    using deleg e upd steps final st inter by (intro conjI exI [of _ ?p1] exI [of _ ?q]) auto
qed

lemma example_update_total_size: "encode_total_size example_update_data = Inr 347"
  by (simp add: encode_total_size_def example_update_data_def example_resources_def
      identity_pairs_def resources_array_def validate_and_calculate_protobuf_payload_size_def
      KEY_VALUE_LIMIT_def protobuf_record_size_def protobuf_otel_keyvalue_string_size_def
      protobuf_string_size_def protobuf_varint_size_def uint16_t_def)

lemma encode_example_update:
  "otel_process_ctx_encode_protobuf_payload True example_update_data
   = Some (Inr (payload_bytes example_update_data, 347))"
  using encode_total_size_length [OF example_update_total_size]
    encode_emit_bytes [of example_update_data] example_update_total_size
  by (simp add: otel_process_ctx_encode_protobuf_payload_def)

lemma encode_oversize:
  "otel_process_ctx_encode_protobuf_payload calloc_ok oversize_data = Some (Inl err_value_too_long)"
  by (simp add: otel_process_ctx_encode_protobuf_payload_def encode_total_size_def
      oversize_data_def example_data_def identity_pairs_def
      validate_and_calculate_protobuf_payload_size_def KEY_VALUE_LIMIT_def)

lemma published_process_is_published:
  "ctx_is_published published_process (published_state published_process)"
  by (simp add: ctx_is_published_def published_process_def NULL_def MAP_FAILED_def)

theorem update_timestamp_protocol_witness:
  "ctx_is_published published_process (published_state published_process) \<and>
   mappings published_process (mapping (published_state published_process)) = Some example_header \<and>
   encode_payload update_env example_update_data published_process
     = Some (Inr (8192, 347),
             published_process\<lparr>heap := (heap published_process)
                 (8192 \<mapsto> payload_bytes example_update_data)\<rparr>) \<and>
   (\<exists>q. otel_process_ctx_update update_env 1700000005000000007 (Some example_update_data)
          published_process = Some (succeeded, q) \<and>
        mappings q 65536
          = Some (example_header\<lparr>otel_process_payload_size := 347,
                    otel_process_payload := 8192,
                    otel_process_ctx_published_at_ns := 1700000005000000007\<rparr>)) \<and>
   update_step\<^sup>*\<^sup>*
     (update_program 1700000005000000007 8192 347,
      published_process\<lparr>heap := (heap published_process)
          (8192 \<mapsto> payload_bytes example_update_data)\<rparr>)
     (drop 3 (update_program 1700000005000000007 8192 347),
      process_after 3 1700000005000000007 8192 347 example_header
        (published_process\<lparr>heap := (heap published_process)
            (8192 \<mapsto> payload_bytes example_update_data)\<rparr>)) \<and>
   mappings (process_after 3 1700000005000000007 8192 347 example_header
        (published_process\<lparr>heap := (heap published_process)
            (8192 \<mapsto> payload_bytes example_update_data)\<rparr>)) 65536
     = Some (example_header\<lparr>otel_process_ctx_published_at_ns := 0,
               otel_process_payload_size := 347\<rparr>)"
proof -
  let ?p1 = "published_process\<lparr>heap := (heap published_process)
                 (8192 \<mapsto> payload_bytes example_update_data)\<rparr>"
  let ?prog = "update_program 1700000005000000007 8192 347"
  let ?q3 = "process_after 3 1700000005000000007 8192 347 example_header ?p1"
  have e: "encode_payload update_env example_update_data published_process
     = Some (Inr (8192, 347), ?p1)"
    by (simp add: encode_payload_def encode_example_update update_env_def NULL_def)
  have h1: "mappings ?p1 (mapping (published_state ?p1)) = Some example_header"
    using published_process_header by simp
  have reach: "update_step\<^sup>*\<^sup>* (?prog, ?p1) (drop 3 ?prog, ?q3)"
    using run_update_prefix [OF h1, of 3] by (intro update_steps_take) simp
  have a: "mapping (published_state published_process) = 65536"
    by (simp add: published_process_def)
  note t = update_timestamp_protocol [OF published_process_is_published
      published_process_header e, of 1700000005000000007]
  from t obtain q where q1: "otel_process_ctx_update update_env 1700000005000000007
        (Some example_update_data) published_process = Some (succeeded, q)"
    and q2: "update_step\<^sup>*\<^sup>* (?prog, ?p1) ([], q)"
    and all: "\<forall>rest q'. update_step\<^sup>*\<^sup>* (?prog, ?p1) (rest, q') \<longrightarrow>
              (\<exists>h'. mappings q' (mapping (published_state q')) = Some h' \<and>
                 mapping (published_state q') = mapping (published_state published_process) \<and>
                 otel_process_ctx_signature h' = otel_process_ctx_signature example_header \<and>
                 otel_process_ctx_version h' = otel_process_ctx_version example_header \<and>
                 (length rest = 9 \<longrightarrow> h' = example_header) \<and>
                 (7 \<le> length rest \<and> length rest \<le> 8 \<longrightarrow>
                    h' = example_header\<lparr>otel_process_ctx_published_at_ns := 0\<rparr>) \<and>
                 (length rest = 6 \<longrightarrow>
                    h' = example_header\<lparr>otel_process_ctx_published_at_ns := 0,
                           otel_process_payload_size := 347\<rparr>) \<and>
                 (4 \<le> length rest \<and> length rest \<le> 5 \<longrightarrow>
                    h' = example_header\<lparr>otel_process_ctx_published_at_ns := 0,
                           otel_process_payload_size := 347,
                           otel_process_payload := 8192\<rparr>) \<and>
                 (length rest \<le> 3 \<longrightarrow>
                    h' = example_header\<lparr>otel_process_payload_size := 347,
                           otel_process_payload := 8192,
                           otel_process_ctx_published_at_ns := 1700000005000000007\<rparr>) \<and>
                 (otel_process_ctx_published_at_ns h' \<noteq> 0 \<longrightarrow>
                    otel_process_payload_size h' = otel_process_payload_size example_header \<and>
                    otel_process_payload h' = otel_process_payload example_header \<or>
                    otel_process_payload_size h' = 347 \<and>
                    otel_process_payload h' = 8192))"
    by (elim exE conjE) (rule that)
  from all [rule_format, OF q2] have fin: "mappings q 65536
          = Some (example_header\<lparr>otel_process_payload_size := 347,
                    otel_process_payload := 8192,
                    otel_process_ctx_published_at_ns := 1700000005000000007\<rparr>)"
    by (auto simp: a)
  from all [rule_format, OF reach] have mid: "mappings ?q3 65536
     = Some (example_header\<lparr>otel_process_ctx_published_at_ns := 0,
               otel_process_payload_size := 347\<rparr>)"
    by (auto simp: a update_program_def)
  from q1 fin have ex: "\<exists>q. otel_process_ctx_update update_env 1700000005000000007
          (Some example_update_data) published_process = Some (succeeded, q) \<and>
        mappings q 65536
          = Some (example_header\<lparr>otel_process_payload_size := 347,
                    otel_process_payload := 8192,
                    otel_process_ctx_published_at_ns := 1700000005000000007\<rparr>)"
    by (intro exI [of _ q] conjI)
  show ?thesis
    by (intro conjI published_process_is_published published_process_header e ex reach mid)
qed

theorem update_encode_failure_leaves_state_witness:
  "otel_process_ctx_encode_protobuf_payload (calloc_ptr update_env \<noteq> NULL) oversize_data
     = Some (Inl err_value_too_long) \<and>
   otel_process_ctx_update update_env (time_now_ns update_env) (Some oversize_data)
     published_process = Some (failure err_value_too_long, published_process) \<and>
   otel_process_ctx_encode_protobuf_payload (calloc_ptr oom_env \<noteq> NULL) example_update_data
     = Some (Inl err_payload_alloc) \<and>
   otel_process_ctx_update oom_env (time_now_ns oom_env) (Some example_update_data)
     published_process = Some (failure err_payload_alloc, published_process)"
proof -
  have e1: "otel_process_ctx_encode_protobuf_payload (calloc_ptr update_env \<noteq> NULL) oversize_data
     = Some (Inl err_value_too_long)" by (rule encode_oversize)
  have e2: "otel_process_ctx_encode_protobuf_payload (calloc_ptr oom_env \<noteq> NULL)
              example_update_data = Some (Inl err_payload_alloc)"
    by (simp add: oom_env_def otel_process_ctx_encode_protobuf_payload_def
        example_update_total_size)
  show ?thesis
    using update_encode_failure_leaves_state [OF e1, of "time_now_ns update_env" published_process]
      update_encode_failure_leaves_state [OF e2, of "time_now_ns oom_env" published_process]
      e1 e2 published_process_is_published
    by auto
qed

theorem publish_on_published_is_update_witness:
  "otel_process_ctx_publish good_env (Some example_data) unpublished_process
     = Some (succeeded, published_process) \<and>
   ctx_is_published published_process (published_state published_process) \<and>
   time_now_ns update_env \<noteq> 0 \<and>
   mappings published_process (mapping (published_state published_process))
     = Some example_header \<and>
   otel_process_payload example_header = payload (published_state published_process) \<and>
   heap published_process (payload (published_state published_process))
     = Some (payload_bytes example_data) \<and>
   calloc_ptr update_env \<noteq> NULL \<and>
   calloc_ptr update_env \<notin> dom (heap published_process) \<and>
   otel_process_ctx_encode_protobuf_payload True example_update_data
     = Some (Inr (payload_bytes example_update_data, 347)) \<and>
   otel_process_ctx_publish update_env (Some example_update_data) published_process
     = otel_process_ctx_update update_env (time_now_ns update_env) (Some example_update_data)
         published_process \<and>
   (\<exists>q. otel_process_ctx_publish update_env (Some example_update_data) published_process
          = Some (succeeded, q) \<and>
        reader_view q 65536
          = Some (example_header\<lparr>otel_process_payload_size := 347,
                    otel_process_payload := 8192,
                    otel_process_ctx_published_at_ns := 1700000005000000007\<rparr>,
                  Some (payload_bytes example_update_data)) \<and>
        published_state q = \<lparr>publisher_pid = 1000, mapping = 65536, payload = 8192\<rparr>)"
proof -
  have t: "time_now_ns update_env \<noteq> 0" by (simp add: time_now_ns_update_env)
  have o1: "otel_process_payload example_header = payload (published_state published_process)"
    by (simp add: example_header_def published_process_def)
  have o2: "heap published_process (payload (published_state published_process))
     = Some (payload_bytes example_data)"
    by (simp add: published_process_def)
  have n1: "calloc_ptr update_env \<noteq> NULL" by (simp add: update_env_def NULL_def)
  have n2: "calloc_ptr update_env \<notin> dom (heap published_process)"
    by (simp add: update_env_def published_process_def)
  have a: "mapping (published_state published_process) = 65536"
    "calloc_ptr update_env = 8192"
    "published_state published_process = \<lparr>publisher_pid = 1000, mapping = 65536, payload = 4096\<rparr>"
    by (simp_all add: published_process_def update_env_def)
  from publish_on_published_is_update [OF published_process_is_published t
      published_process_header o1 o2 n1 n2 encode_example_update]
  show ?thesis
    using publish_example published_process_is_published t published_process_header o1 o2 n1 n2
      encode_example_update
    by (auto simp: a time_now_ns_update_env)
qed

lemma update_example:
  "otel_process_ctx_update env 1700000005000000007 (Some example_update_data) published_process
   = (if calloc_ptr env = NULL then Some (failure err_payload_alloc, published_process)
      else Some (succeeded,
             process_after 9 1700000005000000007 (calloc_ptr env) 347 example_header
               (published_process\<lparr>heap := (heap published_process)
                   (calloc_ptr env \<mapsto> payload_bytes example_update_data)\<rparr>)))"
proof -
  have h1: "mappings (published_process\<lparr>heap := hp\<rparr>)
              (mapping (published_state (published_process\<lparr>heap := hp\<rparr>))) = Some example_header"
    for hp
    using published_process_header by simp
  show ?thesis
  proof (cases "calloc_ptr env = NULL")
    case True
    then show ?thesis
      using published_process_is_published
      by (simp add: otel_process_ctx_update_def encode_payload_def
          otel_process_ctx_encode_protobuf_payload_def example_update_total_size)
  next
    case False
    then have "encode_payload env example_update_data published_process
       = Some (Inr (calloc_ptr env, 347),
               published_process\<lparr>heap := (heap published_process)
                   (calloc_ptr env \<mapsto> payload_bytes example_update_data)\<rparr>)"
      by (simp add: encode_payload_def encode_example_update)
    with False show ?thesis
      using published_process_is_published
      by (simp add: otel_process_ctx_update_def run_update_whole [OF h1])
  qed
qed

text \<open>
  Claim C2 as stated, for every state with a published context, fails: when the clock
  cannot be read, \<^verbatim>\<open>publish\<close> returns a failure before it delegates and leaves the
  state as it was, the reader still seeing the first attributes, whereas \<^verbatim>\<open>update\<close>
  called on the same state succeeds and installs the new payload.
\<close>

theorem publish_on_published_is_update_counterexample:
  "ctx_is_published published_process (published_state published_process) \<and>
   reader_view published_process 65536
     = Some (example_header, Some (payload_bytes example_data)) \<and>
   otel_process_ctx_publish clockless_env (Some example_update_data) published_process
     = Some (failure err_time, published_process) \<and>
   otel_process_ctx_update clockless_env 1700000005000000007 (Some example_update_data)
       published_process
     = Some (succeeded,
         process_after 9 1700000005000000007 8192 347 example_header
           (published_process\<lparr>heap := (heap published_process)
               (8192 \<mapsto> payload_bytes example_update_data)\<rparr>)) \<and>
   otel_process_ctx_publish clockless_env (Some example_update_data) published_process
     \<noteq> otel_process_ctx_update clockless_env 1700000005000000007 (Some example_update_data)
         published_process"
proof -
  have c: "calloc_ptr clockless_env = 8192"
    by (simp add: clockless_env_def update_env_def)
  have p: "otel_process_ctx_publish clockless_env (Some example_update_data) published_process
     = Some (failure err_time, published_process)"
    by (simp add: otel_process_ctx_publish_def time_now_ns_def clockless_env_def)
  have u: "otel_process_ctx_update clockless_env 1700000005000000007 (Some example_update_data)
       published_process
     = Some (succeeded,
         process_after 9 1700000005000000007 8192 347 example_header
           (published_process\<lparr>heap := (heap published_process)
               (8192 \<mapsto> payload_bytes example_update_data)\<rparr>))"
    by (simp add: update_example c NULL_def)
  have r: "reader_view published_process 65536
     = Some (example_header, Some (payload_bytes example_data))"
    by (simp add: reader_view_def published_process_def example_header_def)
  show ?thesis
    using published_process_is_published p u r by (simp add: failure_def succeeded_def)
qed

section \<open>Dropping a read result\<close>

text \<open>
  \<^verbatim>\<open>otel_process_ctx_read_drop\<close> frees what a read result owns, so here the struct
  \<^verbatim>\<open>otel_process_ctx_data\<close> is taken as stored: its fields are the addresses of heap
  blocks, and the resources field is the address of an array of such addresses that ends
  with a \<^verbatim>\<open>NULL\<close> cell. \<^verbatim>\<open>otel_process_ctx_read_result\<close> has the two fields of
  \<^verbatim>\<open>otel_process_ctx_result\<close> and the data.
\<close>

datatype block = Bytes "byte list" | Pointers "addr list"

type_synonym reader_heap = "addr \<rightharpoonup> block"

record otel_process_ctx_data_mem =
  deployment_environment_name_ptr :: addr
  service_instance_id_ptr :: addr
  service_name_ptr :: addr
  service_version_ptr :: addr
  telemetry_sdk_language_ptr :: addr
  telemetry_sdk_version_ptr :: addr
  telemetry_sdk_name_ptr :: addr
  resources_ptr :: addr

record otel_process_ctx_read_result = otel_process_ctx_result +
  data :: otel_process_ctx_data_mem

definition empty_data_mem :: otel_process_ctx_data_mem where
  "empty_data_mem =
     \<lparr>deployment_environment_name_ptr = NULL, service_instance_id_ptr = NULL,
      service_name_ptr = NULL, service_version_ptr = NULL, telemetry_sdk_language_ptr = NULL,
      telemetry_sdk_version_ptr = NULL, telemetry_sdk_name_ptr = NULL, resources_ptr = NULL\<rparr>"

text \<open>\<^verbatim>\<open>if (ptr) free(ptr)\<close>, and \<^verbatim>\<open>free\<close> of a pointer known not to be \<^verbatim>\<open>NULL\<close>.\<close>

definition free_block :: "addr \<Rightarrow> reader_heap \<Rightarrow> reader_heap" where
  "free_block a hp = (if a = NULL then hp else hp(a := None))"

text \<open>
  \<^verbatim>\<open>otel_process_ctx_read_data_drop\<close>. The loop over the resources array frees the
  cells before the first \<^verbatim>\<open>NULL\<close> cell. The result is \<open>None\<close> when the array cannot be
  read: the resources pointer is not the address of a live array with a \<^verbatim>\<open>NULL\<close> cell.
\<close>

definition otel_process_ctx_read_data_drop ::
    "otel_process_ctx_data_mem \<Rightarrow> reader_heap \<Rightarrow> reader_heap option" where
  "otel_process_ctx_read_data_drop d hp =
     (let hp1 = free_block (deployment_environment_name_ptr d) hp;
          hp2 = free_block (service_instance_id_ptr d) hp1;
          hp3 = free_block (service_name_ptr d) hp2;
          hp4 = free_block (service_version_ptr d) hp3;
          hp5 = free_block (telemetry_sdk_language_ptr d) hp4;
          hp6 = free_block (telemetry_sdk_version_ptr d) hp5;
          hp7 = free_block (telemetry_sdk_name_ptr d) hp6
      in if resources_ptr d = NULL then Some hp7
         else (case hp7 (resources_ptr d) of
                 Some (Pointers cells) \<Rightarrow>
                   if NULL \<in> set cells
                   then Some (free_block (resources_ptr d)
                                (fold free_block (takeWhile (\<lambda>a. a \<noteq> NULL) cells) hp7))
                   else None
               | _ \<Rightarrow> None))"

definition otel_process_ctx_read_drop ::
    "otel_process_ctx_read_result option \<Rightarrow> reader_heap \<Rightarrow>
     (bool \<times> otel_process_ctx_read_result option \<times> reader_heap) option" where
  "otel_process_ctx_read_drop result hp =
     (case result of
        None \<Rightarrow> Some (False, None, hp)
      | Some r \<Rightarrow>
          if \<not> success r then Some (False, Some r, hp)
          else (case otel_process_ctx_read_data_drop (data r) hp of
                  None \<Rightarrow> None
                | Some hp' \<Rightarrow>
                    Some (True,
                          Some \<lparr>success = False, error_message = Some ''Data dropped'',
                                data = empty_data_mem\<rparr>,
                          hp')))"

text \<open>
  The blocks that a read result owns: those of its seven strings, of the strings in its
  resources array, and the array itself. The array is readable when the pointer is
  \<^verbatim>\<open>NULL\<close> or leads to a live array with a terminating cell that is not one of the
  seven strings.
\<close>

definition identity_ptrs :: "otel_process_ctx_data_mem \<Rightarrow> addr list" where
  "identity_ptrs d =
     [deployment_environment_name_ptr d, service_instance_id_ptr d, service_name_ptr d,
      service_version_ptr d, telemetry_sdk_language_ptr d, telemetry_sdk_version_ptr d,
      telemetry_sdk_name_ptr d]"

definition resource_cells :: "otel_process_ctx_data_mem \<Rightarrow> reader_heap \<Rightarrow> addr list" where
  "resource_cells d hp =
     (if resources_ptr d = NULL then []
      else case hp (resources_ptr d) of
             Some (Pointers cells) \<Rightarrow> takeWhile (\<lambda>a. a \<noteq> NULL) cells
           | _ \<Rightarrow> [])"

definition resources_readable :: "otel_process_ctx_data_mem \<Rightarrow> reader_heap \<Rightarrow> bool" where
  "resources_readable d hp \<longleftrightarrow>
     resources_ptr d = NULL \<or>
     resources_ptr d \<notin> set (identity_ptrs d) \<and>
     (case hp (resources_ptr d) of Some (Pointers cells) \<Rightarrow> NULL \<in> set cells | _ \<Rightarrow> False)"

definition owned_blocks :: "otel_process_ctx_data_mem \<Rightarrow> reader_heap \<Rightarrow> addr set" where
  "owned_blocks d hp =
     (set (identity_ptrs d) \<union> set (resource_cells d hp) \<union> {resources_ptr d}) - {NULL}"

definition example_read_result :: otel_process_ctx_read_result where
  "example_read_result =
     \<lparr>success = True, error_message = None,
      data = \<lparr>deployment_environment_name_ptr = 16, service_instance_id_ptr = 32,
              service_name_ptr = 48, service_version_ptr = 64,
              telemetry_sdk_language_ptr = 80, telemetry_sdk_version_ptr = 96,
              telemetry_sdk_name_ptr = 112, resources_ptr = 128\<rparr>\<rparr>"

definition example_reader_heap :: reader_heap where
  "example_reader_heap =
     [16 \<mapsto> Bytes ''prod'', 32 \<mapsto> Bytes ''123d8444-2c7e-46e3-89f6-6217880f7123'',
      48 \<mapsto> Bytes ''my-service'', 64 \<mapsto> Bytes ''4.5.6'', 80 \<mapsto> Bytes ''c'',
      96 \<mapsto> Bytes ''1.2.3'', 112 \<mapsto> Bytes ''example_ctx.c'',
      128 \<mapsto> Pointers [144, 160, 0, 0, 0],
      144 \<mapsto> Bytes ''resource.key1'', 160 \<mapsto> Bytes ''resource.value1'',
      512 \<mapsto> Bytes ''not part of the result'']"

subsection \<open>Properties of dropping a read result\<close>

lemma fold_free_block:
  "fold free_block xs hp a = (if a \<in> set xs \<and> a \<noteq> NULL then None else hp a)"
  by (induction xs arbitrary: hp) (auto simp: free_block_def)

lemma read_data_drop_frees:
  assumes "resources_readable d hp"
  shows "\<exists>hp'. otel_process_ctx_read_data_drop d hp = Some hp' \<and>
           (\<forall>a. hp' a = (if a \<in> owned_blocks d hp then None else hp a))"
proof (cases "resources_ptr d = NULL")
  case True
  then have eq: "otel_process_ctx_read_data_drop d hp = Some (fold free_block (identity_ptrs d) hp)"
    by (simp add: otel_process_ctx_read_data_drop_def Let_def identity_ptrs_def)
  have rc: "resource_cells d hp = []" using True by (simp add: resource_cells_def)
  show ?thesis
    unfolding eq using True
    by (auto simp: fold_free_block owned_blocks_def rc)
next
  case False
  with assms obtain cells where c: "hp (resources_ptr d) = Some (Pointers cells)"
    "NULL \<in> set cells" "resources_ptr d \<notin> set (identity_ptrs d)"
    by (auto simp: resources_readable_def split: option.splits block.splits)
  let ?hp7 = "fold free_block (identity_ptrs d) hp"
  have hp7: "?hp7 (resources_ptr d) = Some (Pointers cells)"
    using c by (simp add: fold_free_block)
  have eq: "otel_process_ctx_read_data_drop d hp
        = Some (free_block (resources_ptr d)
                  (fold free_block (takeWhile (\<lambda>a. a \<noteq> NULL) cells) ?hp7))"
    using False hp7 c(2)
    by (simp add: otel_process_ctx_read_data_drop_def Let_def identity_ptrs_def)
  have rc: "resource_cells d hp = takeWhile (\<lambda>a. a \<noteq> NULL) cells"
    using False by (simp add: resource_cells_def c(1))
  show ?thesis
    unfolding eq using False
    by (auto simp: free_block_def fold_free_block owned_blocks_def rc)
qed

text \<open>
  Claim C10. \<^verbatim>\<open>otel_process_ctx_read_drop\<close> with a \<^verbatim>\<open>NULL\<close> result pointer, or with a
  result whose success flag is false, returns false and changes neither the result nor
  the heap. With a successful result (whose resources array is readable) it returns
  true, the result becomes the unsuccessful one with the message \<open>Data dropped\<close> and the
  empty data, and exactly the blocks that the result owned are freed: its seven strings,
  the strings of the resources array, and the array.
\<close>

theorem read_drop_behaviour:
  "otel_process_ctx_read_drop None hp = Some (False, None, hp) \<and>
   (\<not> success r \<longrightarrow> otel_process_ctx_read_drop (Some r) hp = Some (False, Some r, hp)) \<and>
   (success r \<and> resources_readable (data r) hp \<longrightarrow>
      (\<exists>hp'. otel_process_ctx_read_drop (Some r) hp
               = Some (True,
                       Some \<lparr>success = False, error_message = Some ''Data dropped'',
                             data = empty_data_mem\<rparr>,
                       hp') \<and>
             (\<forall>a. hp' a = (if a \<in> owned_blocks (data r) hp then None else hp a))))"
proof (intro conjI impI)
  show "otel_process_ctx_read_drop None hp = Some (False, None, hp)"
    by (simp add: otel_process_ctx_read_drop_def)
next
  assume "\<not> success r"
  then show "otel_process_ctx_read_drop (Some r) hp = Some (False, Some r, hp)"
    by (simp add: otel_process_ctx_read_drop_def)
next
  assume a: "success r \<and> resources_readable (data r) hp"
  then obtain hp' where "otel_process_ctx_read_data_drop (data r) hp = Some hp'"
    "\<forall>a. hp' a = (if a \<in> owned_blocks (data r) hp then None else hp a)"
    using read_data_drop_frees by blast
  with a show "\<exists>hp'. otel_process_ctx_read_drop (Some r) hp
               = Some (True,
                       Some \<lparr>success = False, error_message = Some ''Data dropped'',
                             data = empty_data_mem\<rparr>,
                       hp') \<and>
             (\<forall>a. hp' a = (if a \<in> owned_blocks (data r) hp then None else hp a))"
    by (simp add: otel_process_ctx_read_drop_def)
qed

theorem read_drop_behaviour_witness:
  "success example_read_result \<and>
   resources_readable (data example_read_result) example_reader_heap \<and>
   (\<exists>hp'. otel_process_ctx_read_drop (Some example_read_result) example_reader_heap
            = Some (True,
                    Some \<lparr>success = False, error_message = Some ''Data dropped'',
                          data = empty_data_mem\<rparr>,
                    hp') \<and>
          hp' 16 = None \<and> hp' 112 = None \<and> hp' 128 = None \<and> hp' 144 = None \<and>
          hp' 160 = None \<and> hp' 512 = Some (Bytes ''not part of the result'')) \<and>
   \<not> success (example_read_result\<lparr>success := False\<rparr>) \<and>
   otel_process_ctx_read_drop (Some (example_read_result\<lparr>success := False\<rparr>))
     example_reader_heap
   = Some (False, Some (example_read_result\<lparr>success := False\<rparr>), example_reader_heap)"
proof -
  have s: "success example_read_result" by (simp add: example_read_result_def)
  have r: "resources_readable (data example_read_result) example_reader_heap"
    by (simp add: resources_readable_def example_read_result_def example_reader_heap_def
        identity_ptrs_def NULL_def)
  have cells: "resource_cells (data example_read_result) example_reader_heap = [144, 160]"
    by (simp add: resource_cells_def example_read_result_def example_reader_heap_def NULL_def)
  have owned: "owned_blocks (data example_read_result) example_reader_heap
               = {16, 32, 48, 64, 80, 96, 112, 128, 144, 160}"
    by (simp add: owned_blocks_def cells)
       (auto simp: identity_ptrs_def example_read_result_def NULL_def)
  have other: "example_reader_heap 512 = Some (Bytes ''not part of the result'')"
    by (simp add: example_reader_heap_def)
  have f: "\<not> success (example_read_result\<lparr>success := False\<rparr>)" by simp
  show ?thesis
    using read_drop_behaviour [of example_reader_heap example_read_result]
      read_drop_behaviour [of example_reader_heap "example_read_result\<lparr>success := False\<rparr>"]
      s r f other
    by (auto simp: owned)
qed

end
